theory Spec2Isabelle
  imports Main
begin

section \<open>Text as sequences of Unicode code points\<close>

text \<open>
  A Python \<^verbatim>\<open>str\<close> is a sequence of code points. A code point is a natural number and a
  string is a list of them; \<open>ustr\<close> reads an ASCII literal.
\<close>

type_synonym ustring = "nat list"

definition ustr :: "string \<Rightarrow> ustring" where
  "ustr cs = map of_char cs"

definition rng :: "nat \<Rightarrow> nat \<Rightarrow> nat \<Rightarrow> bool" where
  "rng a b c = (a \<le> c \<and> c \<le> b)"

definition one_of :: "string \<Rightarrow> nat \<Rightarrow> bool" where
  "one_of cs c = (c \<in> set (ustr cs))"

text \<open>
  \<^verbatim>\<open>str.isspace\<close> of one code point, which is also the class \<^verbatim>\<open>\s\<close> of \<^verbatim>\<open>re\<close> on
  \<^verbatim>\<open>str\<close> patterns and the set removed by \<^verbatim>\<open>str.strip()\<close>: U+0009..U+000D,
  U+001C..U+0020, U+0085, U+00A0, U+1680, U+2000..U+200A, U+2028, U+2029, U+202F,
  U+205F, U+3000.
\<close>

definition isspace :: "nat \<Rightarrow> bool" where
  "isspace c = (rng 9 13 c \<or> rng 28 32 c \<or> c = 133 \<or> c = 160 \<or> c = 5760 \<or> rng 8192 8202 c
     \<or> c = 8232 \<or> c = 8233 \<or> c = 8239 \<or> c = 8287 \<or> c = 12288)"

definition lstrip :: "ustring \<Rightarrow> ustring" where
  "lstrip s = dropWhile isspace s"

definition rstrip :: "ustring \<Rightarrow> ustring" where
  "rstrip s = rev (dropWhile isspace (rev s))"

definition strip :: "ustring \<Rightarrow> ustring" where
  "strip s = rstrip (lstrip s)"

text \<open>\<^verbatim>\<open>s.replace(a, b)\<close> for a one-character \<^verbatim>\<open>a\<close>.\<close>

definition replace_cp :: "nat \<Rightarrow> ustring \<Rightarrow> ustring \<Rightarrow> ustring" where
  "replace_cp a b s = concat (map (\<lambda>c. if c = a then b else [c]) s)"

text \<open>
  The properties of the code points above U+007F come from Python's Unicode database, which
  is not part of the repository. They are a parameter of every function that consults them;
  on ASCII the classes are written out.
\<close>

record unicode_db =
  uc_alnum :: "nat \<Rightarrow> bool"
  uc_decimal :: "nat \<Rightarrow> bool"
  uc_digit_value :: "nat \<Rightarrow> nat"
  uc_lower :: "nat \<Rightarrow> nat list"
  uc_isupper :: "nat \<Rightarrow> bool"
  uc_islower :: "nat \<Rightarrow> bool"
  uc_istitle :: "nat \<Rightarrow> bool"
  uc_fold :: "nat \<Rightarrow> nat list"

definition ascii_upper :: "nat \<Rightarrow> bool" where
  "ascii_upper c = rng 65 90 c"

definition ascii_lower :: "nat \<Rightarrow> bool" where
  "ascii_lower c = rng 97 122 c"

definition ascii_digit :: "nat \<Rightarrow> bool" where
  "ascii_digit c = rng 48 57 c"

text \<open>\<^verbatim>\<open>\d\<close> and \<^verbatim>\<open>\w\<close> of \<^verbatim>\<open>re\<close> on \<^verbatim>\<open>str\<close> patterns.\<close>

definition is_digit :: "unicode_db \<Rightarrow> nat \<Rightarrow> bool" where
  "is_digit U c = (if c < 128 then ascii_digit c else uc_decimal U c)"

definition is_word :: "unicode_db \<Rightarrow> nat \<Rightarrow> bool" where
  "is_word U c =
     (if c < 128 then ascii_upper c \<or> ascii_lower c \<or> ascii_digit c \<or> c = 95 else uc_alnum U c)"

text \<open>
  A database that knows no cased, alphanumeric or decimal code point above U+007F. It agrees
  with Python on every ASCII string, and is the one the concrete evaluations below use:
  their inputs are ASCII.
\<close>

definition ascii_db :: unicode_db where
  "ascii_db = \<lparr> uc_alnum = (\<lambda>c. False), uc_decimal = (\<lambda>c. False), uc_digit_value = (\<lambda>c. 0),
     uc_lower = (\<lambda>c. [c]), uc_isupper = (\<lambda>c. False), uc_islower = (\<lambda>c. False),
     uc_istitle = (\<lambda>c. False), uc_fold = (\<lambda>c. []) \<rparr>"

section \<open>Regular expressions with Python's backtracking order\<close>

text \<open>
  \<open>rmatch r s i c\<close> lists the ways \<open>r\<close> matches \<open>s\<close> from offset \<open>i\<close>, as pairs of the end
  offset and the capture groups, in the order in which the backtracking matcher of \<^verbatim>\<open>re\<close>
  tries them: the head is the match Python reports. Quantifiers are greedy; the patterns of
  this program have no lazy quantifier and repeat no sub-pattern that can match the empty
  string.
\<close>

type_synonym caps = "(nat \<times> nat \<times> nat) list"

datatype rx =
    Eps
  | Chr "nat \<Rightarrow> bool"
  | Seq rx rx
  | Alt rx rx
  | Rep nat "nat option" rx
  | Bol
  | Eol
  | Bnd "nat \<Rightarrow> bool"
  | Ahead rx
  | Behind "nat \<Rightarrow> bool"
  | Grp nat rx

fun rep_iter :: "(nat \<Rightarrow> caps \<Rightarrow> (nat \<times> caps) list) \<Rightarrow> nat \<Rightarrow> nat option \<Rightarrow> nat \<Rightarrow> nat \<Rightarrow> caps
    \<Rightarrow> (nat \<times> caps) list" where
  "rep_iter f m n 0 i c = (if m = 0 then [(i, c)] else [])"
| "rep_iter f m n (Suc k) i c =
     (if n = Some 0 then []
      else concat (map (\<lambda>(j, c'). if i < j
                                   then rep_iter f (m - 1) (map_option (\<lambda>x. x - 1) n) k j c'
                                   else [])
                       (f i c)))
     @ (if m = 0 then [(i, c)] else [])"

fun rmatch :: "rx \<Rightarrow> ustring \<Rightarrow> nat \<Rightarrow> caps \<Rightarrow> (nat \<times> caps) list" where
  "rmatch Eps s i c = [(i, c)]"
| "rmatch (Chr P) s i c = (if i < length s \<and> P (s ! i) then [(Suc i, c)] else [])"
| "rmatch (Seq a b) s i c = concat (map (\<lambda>(j, c'). rmatch b s j c') (rmatch a s i c))"
| "rmatch (Alt a b) s i c = rmatch a s i c @ rmatch b s i c"
| "rmatch (Rep m n a) s i c = rep_iter (\<lambda>j c'. rmatch a s j c') m n (length s - i) i c"
| "rmatch Bol s i c = (if i = 0 then [(i, c)] else [])"
| "rmatch Eol s i c =
     (if i = length s \<or> (Suc i = length s \<and> s ! i = 10) then [(i, c)] else [])"
| "rmatch (Bnd w) s i c =
     (if (0 < i \<and> i \<le> length s \<and> w (s ! (i - 1))) \<noteq> (i < length s \<and> w (s ! i))
      then [(i, c)] else [])"
| "rmatch (Ahead a) s i c = (case rmatch a s i c of [] \<Rightarrow> [] | (j, c') # _ \<Rightarrow> [(i, c')])"
| "rmatch (Behind P) s i c =
     (if 0 < i \<and> i \<le> length s \<and> P (s ! (i - 1)) then [(i, c)] else [])"
| "rmatch (Grp g a) s i c = map (\<lambda>(j, c'). (j, (g, i, j) # c')) (rmatch a s i c)"

text \<open>
  One attempt at offset \<open>i\<close>. With \<open>adv\<close> set (the scan resumes right after an empty
  match) an empty match at \<open>i\<close> is rejected and the matcher backtracks to the next way.
\<close>

definition match_at :: "rx \<Rightarrow> ustring \<Rightarrow> nat \<Rightarrow> bool \<Rightarrow> (nat \<times> caps) option" where
  "match_at r s i adv =
     (case filter (\<lambda>(j, c). \<not> adv \<or> j \<noteq> i) (rmatch r s i []) of
        [] \<Rightarrow> None
      | x # _ \<Rightarrow> Some x)"

fun search_list :: "rx \<Rightarrow> ustring \<Rightarrow> bool \<Rightarrow> nat list \<Rightarrow> (nat \<times> nat \<times> caps) option" where
  "search_list r s adv [] = None"
| "search_list r s adv (i # is) =
     (case match_at r s i adv of
        Some (j, c) \<Rightarrow> Some (i, j, c)
      | None \<Rightarrow> search_list r s False is)"

text \<open>The offsets at which a match of \<open>s\<close> can start: \<open>0\<close> to \<open>length s\<close>.\<close>

fun offsets_from :: "nat \<Rightarrow> 'a list \<Rightarrow> nat list" where
  "offsets_from i [] = [i]"
| "offsets_from i (x # xs) = i # offsets_from (Suc i) xs"

definition offsets :: "'a list \<Rightarrow> nat list" where
  "offsets s = offsets_from 0 s"

text \<open>\<^verbatim>\<open>re.match\<close> and \<^verbatim>\<open>re.search\<close>, as \<^verbatim>\<open>(start, end, groups)\<close>.\<close>

definition re_match :: "rx \<Rightarrow> ustring \<Rightarrow> (nat \<times> nat \<times> caps) option" where
  "re_match r s = (case match_at r s 0 False of None \<Rightarrow> None | Some (j, c) \<Rightarrow> Some (0, j, c))"

definition re_search :: "rx \<Rightarrow> ustring \<Rightarrow> (nat \<times> nat \<times> caps) option" where
  "re_search r s = search_list r s False (offsets s)"

definition matches :: "rx \<Rightarrow> ustring \<Rightarrow> bool" where
  "matches r s = (re_match r s \<noteq> None)"

definition found :: "rx \<Rightarrow> ustring \<Rightarrow> bool" where
  "found r s = (re_search r s \<noteq> None)"

definition substr :: "ustring \<Rightarrow> nat \<Rightarrow> nat \<Rightarrow> ustring" where
  "substr s a b = take (b - a) (drop a s)"

text \<open>\<^verbatim>\<open>m.group(g)\<close>; a group that took no part in the match reads as empty.\<close>

definition group :: "ustring \<Rightarrow> caps \<Rightarrow> nat \<Rightarrow> ustring" where
  "group s c g = (case map_of c g of None \<Rightarrow> [] | Some (a, b) \<Rightarrow> substr s a b)"

subsection \<open>Successive matches\<close>

text \<open>
  \<^verbatim>\<open>re.finditer\<close>: the non-overlapping matches from left to right. \<open>scan r s p is\<close> walks
  the candidate start offsets \<open>is\<close> and skips those before the resume offset \<open>p\<close>, the end
  of the last match. After an empty match at \<open>i\<close> the same offset is tried once more for a
  match that advances.
\<close>

fun scan :: "rx \<Rightarrow> ustring \<Rightarrow> nat \<Rightarrow> nat list \<Rightarrow> (nat \<times> nat \<times> caps) list" where
  "scan r s p [] = []"
| "scan r s p (i # is) =
     (if i < p then scan r s p is
      else case match_at r s i False of
             None \<Rightarrow> scan r s p is
           | Some (j, c) \<Rightarrow>
               if i < j then (i, j, c) # scan r s j is
               else (i, j, c) # (case match_at r s i True of
                                   None \<Rightarrow> scan r s p is
                                 | Some (j', c') \<Rightarrow> (i, j', c') # scan r s j' is))"

definition finditer :: "rx \<Rightarrow> ustring \<Rightarrow> (nat \<times> nat \<times> caps) list" where
  "finditer r s = scan r s 0 (offsets s)"

text \<open>
  \<^verbatim>\<open>re.sub(r, repl, s)\<close>: the text between the matches is kept, each match is replaced by
  \<open>f s c\<close> for its groups \<open>c\<close>.
\<close>

fun sub_build :: "ustring \<Rightarrow> (ustring \<Rightarrow> caps \<Rightarrow> ustring) \<Rightarrow> nat \<Rightarrow> (nat \<times> nat \<times> caps) list \<Rightarrow> ustring" where
  "sub_build s f p [] = drop p s"
| "sub_build s f p ((i, j, c) # ms) = substr s p i @ f s c @ sub_build s f j ms"

definition re_sub :: "rx \<Rightarrow> (ustring \<Rightarrow> caps \<Rightarrow> ustring) \<Rightarrow> ustring \<Rightarrow> ustring" where
  "re_sub r f s = sub_build s f 0 (finditer r s)"

text \<open>
  \<^verbatim>\<open>re.split(r, s)\<close> for a pattern with the capture groups \<open>gs\<close>: the pieces between the
  matches, with the text of every group after each piece.
\<close>

fun split_build :: "ustring \<Rightarrow> nat list \<Rightarrow> nat \<Rightarrow> (nat \<times> nat \<times> caps) list \<Rightarrow> ustring list" where
  "split_build s gs p [] = [drop p s]"
| "split_build s gs p ((i, j, c) # ms) = substr s p i # map (group s c) gs @ split_build s gs j ms"

definition re_split :: "rx \<Rightarrow> nat list \<Rightarrow> ustring \<Rightarrow> ustring list" where
  "re_split r gs s = split_build s gs 0 (finditer r s)"

subsection \<open>Writing patterns\<close>

fun seqs :: "rx list \<Rightarrow> rx" where
  "seqs [] = Eps"
| "seqs [r] = r"
| "seqs (r # rs) = Seq r (seqs rs)"

fun alts :: "rx list \<Rightarrow> rx" where
  "alts [] = Eps"
| "alts [r] = r"
| "alts (r # rs) = Alt r (alts rs)"

definition star :: "rx \<Rightarrow> rx" where "star r = Rep 0 None r"
definition plus :: "rx \<Rightarrow> rx" where "plus r = Rep 1 None r"
definition opt :: "rx \<Rightarrow> rx" where "opt r = Rep 0 (Some 1) r"
definition cp :: "nat \<Rightarrow> rx" where "cp a = Chr (\<lambda>c. c = a)"
definition lit :: "string \<Rightarrow> rx" where "lit cs = seqs (map cp (ustr cs))"

subsection \<open>Character classes, case-insensitive matching\<close>

text \<open>
  The items of a bracketed class: a range, one code point, \<^verbatim>\<open>\d\<close>, \<^verbatim>\<open>\s\<close>, \<^verbatim>\<open>\w\<close>.
  \<open>cls\<close> is \<^verbatim>\<open>[...]\<close> and \<open>ncls\<close> is \<^verbatim>\<open>[^...]\<close>.
\<close>

datatype citem = CR nat nat | CL nat | CatD | CatS | CatW

fun citem_ok :: "unicode_db \<Rightarrow> nat \<Rightarrow> citem \<Rightarrow> bool" where
  "citem_ok U c (CR a b) = rng a b c"
| "citem_ok U c (CL a) = (c = a)"
| "citem_ok U c CatD = is_digit U c"
| "citem_ok U c CatS = isspace c"
| "citem_ok U c CatW = is_word U c"

definition cls :: "unicode_db \<Rightarrow> citem list \<Rightarrow> nat \<Rightarrow> bool" where
  "cls U items c = list_ex (citem_ok U c) items"

definition ncls :: "unicode_db \<Rightarrow> citem list \<Rightarrow> nat \<Rightarrow> bool" where
  "ncls U items c = (\<not> cls U items c)"

text \<open>
  Under \<^verbatim>\<open>re.I\<close> a code point matches a literal or a class when it or a case variant of
  it does. The case variants of an ASCII letter are the letter in the other case; those of a
  code point above U+007F are the ASCII letters \<open>uc_fold\<close> lists for it (such as \<^verbatim>\<open>k\<close> for
  the Kelvin sign), in both cases. Every cased literal in the patterns of this program is an
  ASCII letter.
\<close>

definition swapcase :: "nat \<Rightarrow> nat list" where
  "swapcase c = (if ascii_upper c then [c + 32] else if ascii_lower c then [c - 32] else [])"

definition case_variants :: "unicode_db \<Rightarrow> nat \<Rightarrow> nat list" where
  "case_variants U c =
     (if c < 128 then swapcase c else concat (map (\<lambda>a. a # swapcase a) (uc_fold U c)))"

definition ci :: "unicode_db \<Rightarrow> (nat \<Rightarrow> bool) \<Rightarrow> nat \<Rightarrow> bool" where
  "ci U P c = (P c \<or> list_ex P (case_variants U c))"

definition liti :: "unicode_db \<Rightarrow> string \<Rightarrow> rx" where
  "liti U cs = seqs (map (\<lambda>a. Chr (ci U (\<lambda>c. c = a))) (ustr cs))"

definition dot :: rx where "dot = Chr (\<lambda>c. c \<noteq> 10)"
definition ws :: rx where "ws = Chr isspace"
definition dg :: "unicode_db \<Rightarrow> rx" where "dg U = Chr (is_digit U)"
definition wd :: "unicode_db \<Rightarrow> rx" where "wd U = Chr (is_word U)"
definition wb :: "unicode_db \<Rightarrow> rx" where "wb U = Bnd (is_word U)"

subsection \<open>String methods\<close>

text \<open>
  \<^verbatim>\<open>str.lower()\<close> maps every code point to its lowercase sequence. (Python lowers a capital
  sigma by its context, to one of two lowercase letters; no pattern of this program tells
  them apart.)
\<close>

definition lower_cp :: "unicode_db \<Rightarrow> nat \<Rightarrow> nat list" where
  "lower_cp U c = (if c < 128 then [if ascii_upper c then c + 32 else c] else uc_lower U c)"

definition lower :: "unicode_db \<Rightarrow> ustring \<Rightarrow> ustring" where
  "lower U s = concat (map (lower_cp U) s)"

definition cp_isupper :: "unicode_db \<Rightarrow> nat \<Rightarrow> bool" where
  "cp_isupper U c = (if c < 128 then ascii_upper c else uc_isupper U c)"

definition cp_islower :: "unicode_db \<Rightarrow> nat \<Rightarrow> bool" where
  "cp_islower U c = (if c < 128 then ascii_lower c else uc_islower U c)"

definition cp_istitle :: "unicode_db \<Rightarrow> nat \<Rightarrow> bool" where
  "cp_istitle U c = (if c < 128 then False else uc_istitle U c)"

text \<open>
  \<^verbatim>\<open>str.isupper()\<close>: no lowercase or titlecase code point and at least one uppercase
  one.
\<close>

definition isupper :: "unicode_db \<Rightarrow> ustring \<Rightarrow> bool" where
  "isupper U s =
     (list_all (\<lambda>c. \<not> cp_islower U c \<and> \<not> cp_istitle U c) s \<and> list_ex (cp_isupper U) s)"

definition startswith :: "ustring \<Rightarrow> ustring \<Rightarrow> bool" where
  "startswith s p = (take (length p) s = p)"

definition endswith :: "ustring \<Rightarrow> ustring \<Rightarrow> bool" where
  "endswith s p = (length p \<le> length s \<and> drop (length s - length p) s = p)"

text \<open>\<^verbatim>\<open>p in s\<close> for strings.\<close>

definition contains :: "ustring \<Rightarrow> ustring \<Rightarrow> bool" where
  "contains s p = list_ex (\<lambda>i. startswith (drop i s) p) (offsets s)"

text \<open>
  The exceptions that the functions below can raise on a string. A function that can raise
  returns \<open>Inl\<close> of the exception, or \<open>Inr\<close> of its result.
\<close>

datatype error = IndexError | RecursionError | ValueError

text \<open>
  \<^verbatim>\<open>int(s)\<close> on a string of decimal digits. The conversion refuses a string of more than
  \<open>max_str_digits\<close> digits with \<^verbatim>\<open>ValueError\<close>; leading zeros count. The bound is the
  interpreter's default, 4300, which the program does not change.
\<close>

definition digit_value :: "unicode_db \<Rightarrow> nat \<Rightarrow> nat" where
  "digit_value U c = (if c < 128 then c - 48 else uc_digit_value U c)"

definition max_str_digits :: nat where
  "max_str_digits = 4300"

definition py_int :: "unicode_db \<Rightarrow> ustring \<Rightarrow> error + int" where
  "py_int U ds =
     (if max_str_digits < length ds then Inl ValueError
      else Inr (int (foldl (\<lambda>a c. 10 * a + digit_value U c) 0 ds)))"

subsection \<open>Properties of the Unicode database\<close>

text \<open>
  Two properties of Python's Unicode database, for the proofs that compare a test on a text
  with a test on its lowercased or stripped form. In \<open>consistent_db\<close>: lowercasing leaves
  whitespace and decimal digits as they are, a decimal digit is not whitespace, and a
  character that matches \<^verbatim>\<open>w\<close>, \<^verbatim>\<open>e\<close> or \<^verbatim>\<open>k\<close> under \<^verbatim>\<open>re.I\<close> is lowercased to that
  letter (the Kelvin sign is lowercased to \<^verbatim>\<open>k\<close>). In \<open>whitespace_uncased\<close>: lowercasing
  leaves whitespace as it is, and no whitespace is an uppercase character.
\<close>

definition consistent_db :: "unicode_db \<Rightarrow> bool" where
  "consistent_db U =
     (\<forall>c. (isspace c \<longrightarrow> lower_cp U c = [c])
        \<and> (is_digit U c \<longrightarrow> lower_cp U c = [c] \<and> \<not> isspace c)
        \<and> (ci U (\<lambda>x. x = 119) c \<longrightarrow> lower_cp U c = [119])
        \<and> (ci U (\<lambda>x. x = 101) c \<longrightarrow> lower_cp U c = [101])
        \<and> (ci U (\<lambda>x. x = 107) c \<longrightarrow> lower_cp U c = [107]))"

definition whitespace_uncased :: "unicode_db \<Rightarrow> bool" where
  "whitespace_uncased U = (\<forall>c. isspace c \<longrightarrow> lower_cp U c = [c] \<and> \<not> cp_isupper U c)"

section \<open>The semantic analyzer\<close>

text \<open>
  The spaCy model is outside the repository. The analyzer is a parameter: \<open>None\<close> when
  \<^verbatim>\<open>is_available()\<close> is false, otherwise the result of \<^verbatim>\<open>analyze\<close> and of the
  subject-and-verb test of \<^verbatim>\<open>is_complete_sentence\<close> as functions of the text.
\<close>

record analysis =
  persons :: "ustring list"
  organizations :: "ustring list"
  dates :: "ustring list"
  works_of_art :: "ustring list"
  starts_with_verb :: bool
  has_publication_pattern :: bool
  has_instruction_pattern :: bool

record analyzer =
  analyze :: "ustring \<Rightarrow> analysis"
  complete_sentence :: "ustring \<Rightarrow> bool"

record env =
  udb :: unicode_db
  nlp :: "analyzer option"

definition plain_env :: env where
  "plain_env = \<lparr> udb = ascii_db, nlp = None \<rparr>"

section \<open>The normalizer\<close>

text \<open>
  \<^verbatim>\<open>normalize_pdf_text\<close>: eight one-character replacements (\<open>pdf_artifacts\<close>, the first
  replacement of the source rightmost in the composition), the hyphenation pattern
  \<^verbatim>\<open>(\w)-\s+(\w)\<close> replaced by its two groups, runs of whitespace replaced by one space,
  and \<^verbatim>\<open>strip()\<close>.
\<close>

definition hyphen_break :: "unicode_db \<Rightarrow> rx" where
  "hyphen_break U = seqs [Grp 1 (Chr (is_word U)), cp 45, plus (Chr isspace), Grp 2 (Chr (is_word U))]"

definition pdf_artifacts :: "ustring \<Rightarrow> ustring" where
  "pdf_artifacts =
     replace_cp 65279 [] \<circ> replace_cp 160 [32] \<circ> replace_cp 8212 [45] \<circ> replace_cp 8211 [45]
     \<circ> replace_cp 8221 [34] \<circ> replace_cp 8220 [34] \<circ> replace_cp 8216 [39] \<circ> replace_cp 8217 [39]"

definition normalize_pdf_text :: "unicode_db \<Rightarrow> ustring \<Rightarrow> ustring" where
  "normalize_pdf_text U text0 =
     strip (re_sub (plus (Chr isspace)) (\<lambda>s c. [32])
             (re_sub (hyphen_break U) (\<lambda>s c. group s c 1 @ group s c 2)
               (pdf_artifacts text0)))"

section \<open>Author shapes\<close>

definition author_patterns :: "unicode_db \<Rightarrow> rx list" where
  "author_patterns U =
     [seqs [Bol, Chr (cls U [CR 65 90]), plus (Chr (cls U [CR 97 122]))],
      seqs [Bol, Chr (cls U [CR 65 90]), cp 39, opt (Chr (cls U [CR 65 90])), plus (Chr (cls U [CR 97 122]))],
      seqs [Bol, alts [lit ''van'', lit ''von'', lit ''de'', lit ''del'', lit ''la'', lit ''le'', lit ''du'', lit ''dos'', lit ''das''], plus ws, Chr (cls U [CR 65 90])],
      seqs [Bol, lit ''Mc'', Chr (cls U [CR 65 90]), plus (Chr (cls U [CR 97 122]))],
      seqs [Bol, lit ''Mac'', Chr (cls U [CR 65 90]), plus (Chr (cls U [CR 97 122]))],
      seqs [Bol, Chr (cls U [CR 65 90]), plus (Chr (cls U [CR 97 122])), lit '','', star ws, Chr (cls U [CR 65 90])],
      seqs [Bol, Chr (cls U [CR 65 90]), plus (Chr (cls U [CR 97 122])), plus ws, alts [lit ''and'', lit ''&''], plus ws, Chr (cls U [CR 65 90]), plus (Chr (cls U [CR 97 122]))],
      seqs [Bol, Chr (cls U [CR 65 90]), plus (Chr (cls U [CR 97 122])), plus ws, lit ''et'', plus ws, lit ''al'']]"

definition looks_like_author :: "unicode_db \<Rightarrow> ustring \<Rightarrow> bool" where
  "looks_like_author U t =
     (strip t \<noteq> [] \<and> list_ex (\<lambda>r. matches r (strip t)) (author_patterns U))"

definition author_year :: "unicode_db \<Rightarrow> rx" where
  "author_year U =
     seqs [Grp 1 (seqs [Chr (cls U [CR 65 90]), plus (Chr (cls U [CR 97 122])), opt (seqs [plus ws, alts [lit ''and'', lit ''&''], plus ws, Chr (cls U [CR 65 90]), plus (Chr (cls U [CR 97 122]))]), opt (seqs [plus ws, lit ''et'', plus ws, lit ''al'', opt (lit ''.'')])]), star ws, opt (Chr (cls U [CL 40, CL 44])), star ws, Grp 2 (Rep 4 (Some 4) (dg U)), opt (lit '')'')]"

text \<open>\<^verbatim>\<open>extract_author_year_pairs\<close>: start offset, author and year of every match.\<close>

definition extract_author_year_pairs :: "unicode_db \<Rightarrow> ustring \<Rightarrow> (nat \<times> ustring \<times> ustring) list" where
  "extract_author_year_pairs U t =
     map (\<lambda>(i, j, c). (i, group t c 1, group t c 2)) (finditer (author_year U) t)"

definition year_in_parens :: "unicode_db \<Rightarrow> rx" where
  "year_in_parens U = seqs [lit ''('', Rep 4 (Some 4) (dg U), lit '')'']"

section \<open>Scoring\<close>

definition description_patterns :: "unicode_db \<Rightarrow> rx list" where
  "description_patterns U =
     [seqs [wb U, lit ''this course'', wb U],
      seqs [wb U, lit ''the course'', wb U],
      seqs [wb U, lit ''this class'', wb U],
      seqs [wb U, lit ''the class'', wb U],
      seqs [wb U, lit ''this seminar'', wb U],
      seqs [wb U, lit ''students will'', wb U],
      seqs [wb U, lit ''students learn'', wb U],
      seqs [wb U, lit ''students are'', wb U],
      seqs [wb U, lit ''we will'', wb U],
      seqs [wb U, lit ''we explore'', wb U],
      seqs [wb U, lit ''we examine'', wb U],
      seqs [wb U, lit ''you will'', wb U],
      seqs [wb U, lit ''you learn'', wb U],
      seqs [wb U, lit ''introduces students'', wb U],
      seqs [wb U, lit ''designed to'', wb U],
      seqs [wb U, lit ''purpose of this'', wb U],
      seqs [wb U, lit ''goal of this'', wb U],
      seqs [wb U, lit ''aims to'', wb U],
      seqs [wb U, lit ''seeks to'', wb U],
      seqs [wb U, lit ''focuses on'', wb U],
      seqs [wb U, lit ''explores'', wb U, star dot, wb U, lit ''through'', wb U],
      seqs [wb U, lit ''examines'', wb U, star dot, wb U, lit ''through'', wb U],
      seqs [wb U, lit ''addresses'', wb U, star dot, wb U, lit ''question'', opt (lit ''s''), wb U],
      seqs [wb U, lit ''what is'', wb U, star dot, lit ''?'', star ws, lit ''what'', wb U],
      seqs [wb U, lit ''what are'', wb U, star dot, lit ''?'', star ws],
      seqs [wb U, lit ''how do'', wb U, star dot, lit ''?''],
      seqs [wb U, lit ''why do'', wb U, star dot, lit ''?'']]"

definition is_course_description :: "unicode_db \<Rightarrow> ustring \<Rightarrow> bool" where
  "is_course_description U t = list_ex (\<lambda>r. found r (strip (lower U t))) (description_patterns U)"

text \<open>
  \<^verbatim>\<open>get_semantic_score\<close> and \<^verbatim>\<open>classify_text_type\<close> of the analyzer class, from the result of
  \<^verbatim>\<open>analyze\<close>. A reason is kept with the text it quotes. The confidence is in hundredths:
  the source compares the floats \<^verbatim>\<open>min(0.95, 0.7 + k * 0.05)\<close>, \<^verbatim>\<open>0.6\<close>, \<^verbatim>\<open>0.9\<close> and
  \<^verbatim>\<open>0.3\<close> with \<^verbatim>\<open>0.5\<close>, \<^verbatim>\<open>0.6\<close> and \<^verbatim>\<open>0.7\<close> only, and these comparisons come out as on
  the exact values.
\<close>

datatype sem_reason =
    FoundPersons nat "ustring list"
  | PublisherOrg ustring
  | PublicationYear ustring
  | TitleDetected ustring
  | PublicationPattern
  | InstructionPattern
  | ImperativeStart

definition publisher_like :: "unicode_db \<Rightarrow> ustring \<Rightarrow> bool" where
  "publisher_like U org =
     list_ex (\<lambda>pub. contains (lower U org) (ustr pub)) [''press'', ''publishing'', ''university'', ''journal'']"

definition year_like :: "unicode_db \<Rightarrow> ustring \<Rightarrow> bool" where
  "year_like U d =
     (matches (seqs [Rep 4 (Some 4) (dg U), Eol]) (strip d)
      \<or> found (seqs [wb U, Grp 1 (alts [lit ''19'', lit ''20'']), Rep 2 (Some 2) (dg U), wb U]) d)"

definition semantic_reasons :: "unicode_db \<Rightarrow> analysis \<Rightarrow> (int \<times> sem_reason) list" where
  "semantic_reasons U a =
     (if persons a \<noteq> []
      then [(min (2 * int (length (persons a))) 6, FoundPersons (length (persons a)) (take 3 (persons a)))]
      else [])
     @ (case List.find (publisher_like U) (organizations a) of
          None \<Rightarrow> [] | Some org \<Rightarrow> [(3, PublisherOrg org)])
     @ (case List.find (year_like U) (dates a) of
          None \<Rightarrow> [] | Some d \<Rightarrow> [(2, PublicationYear d)])
     @ (case works_of_art a of [] \<Rightarrow> [] | w # _ \<Rightarrow> [(3, TitleDetected (take 40 w))])
     @ (if has_publication_pattern a then [(4, PublicationPattern)] else [])
     @ (if has_instruction_pattern a then [(- 4, InstructionPattern)] else [])
     @ (if starts_with_verb a then [(- 3, ImperativeStart)] else [])"

definition get_semantic_score :: "unicode_db \<Rightarrow> analyzer \<Rightarrow> ustring \<Rightarrow> int \<times> sem_reason list" where
  "get_semantic_score U A t =
     (sum_list (map fst (semantic_reasons U (analyze A t))), map snd (semantic_reasons U (analyze A t)))"

datatype sem_label = SemReading | SemInstruction | SemHeader | SemUnknown

definition classify_text_type :: "env \<Rightarrow> ustring \<Rightarrow> sem_label \<times> int" where
  "classify_text_type E t =
     (case nlp E of
        None \<Rightarrow> (SemUnknown, 0)
      | Some A \<Rightarrow>
          (if length (strip t) < 20 then (SemUnknown, 90)
           else if 6 \<le> fst (get_semantic_score (udb E) A t)
             then (SemReading, min 95 (70 + (fst (get_semantic_score (udb E) A t) - 6) * 5))
           else if fst (get_semantic_score (udb E) A t) \<le> - 4
             then (SemInstruction, min 95 (70 + \<bar>fst (get_semantic_score (udb E) A t) + 4\<bar> * 5))
           else if 3 \<le> fst (get_semantic_score (udb E) A t) then (SemReading, 60)
           else if fst (get_semantic_score (udb E) A t) \<le> - 2 then (SemInstruction, 60)
           else (SemUnknown, 30)))"

text \<open>
  A table of weighted patterns: every pattern found in the text adds its weight once.
\<close>

definition table_score :: "(rx \<times> string \<times> int) list \<Rightarrow> ustring \<Rightarrow> int" where
  "table_score tab t = sum_list (map (\<lambda>(r, reason, w). if found r t then w else 0) tab)"

definition table_reasons :: "(rx \<times> string \<times> int) list \<Rightarrow> ustring \<Rightarrow> (string \<times> int) list" where
  "table_reasons tab t = map snd (filter (\<lambda>(r, reason, w). found r t) tab)"

text \<open>The leading bullets and numbers that the scorers and the header test remove.\<close>

definition bullets :: "unicode_db \<Rightarrow> rx" where
  "bullets U = seqs [Bol, plus (Chr (cls U [CatD, CL 46, CL 41, CL 45, CL 8226, CL 42])), star ws]"

definition strip_bullets :: "unicode_db \<Rightarrow> ustring \<Rightarrow> ustring" where
  "strip_bullets U t = re_sub (bullets U) (\<lambda>s c. []) t"

definition instr_strong_starters :: "unicode_db \<Rightarrow> (rx \<times> string \<times> int) list" where
  "instr_strong_starters U =
     [(seqs [Bol, Grp 1 (alts [lit ''read'', lit ''write'', lit ''submit'', lit ''complete'', lit ''prepare'', lit ''review'', lit ''discuss'', lit ''bring'', lit ''post'', lit ''upload'', lit ''email'', lit ''send'']), ws],
        ''Imperative verb start'', 3),
      (seqs [Bol, Grp 1 (alts [lit ''please'', lit ''note:'', lit ''note that'', lit ''you should'', lit ''you will'', lit ''you must'']), wb U],
        ''Polite instruction'', 3),
      (seqs [Bol, Grp 1 (alts [lit ''students will'', lit ''students should'', lit ''students must'']), wb U],
        ''Student directive'', 3),
      (seqs [Bol, Grp 1 (alts [lit ''be prepared'', lit ''come prepared'', lit ''make sure'', seqs [lit ''don'', cp 39, lit ''t forget''], lit ''remember to'']), wb U],
        ''Preparation instruction'', 3),
      (seqs [Bol, Grp 1 (alts [lit ''assignment'', lit ''homework'', lit ''essay'', lit ''paper due'', lit ''exam'', lit ''quiz'', lit ''midterm'', lit ''final'']), wb U],
        ''Assignment/exam'', 3),
      (seqs [Bol, Grp 1 (alts [lit ''no class'', lit ''class canceled'', lit ''class cancelled'']), wb U],
        ''Class cancellation'', 3)]"

definition instr_medium_patterns :: "unicode_db \<Rightarrow> (rx \<times> string \<times> int) list" where
  "instr_medium_patterns U =
     [(seqs [wb U, lit ''office'', star ws, lit ''hour'', opt (lit ''s''), wb U],
        ''Office hours'', 2),
      (seqs [Rep 1 (Some 2) (dg U), lit '':'', Rep 2 (Some 2) (dg U), star ws, plus (Chr (cls U [CL 45, CL 8211, CL 116, CL 111])), star ws, Rep 1 (Some 2) (dg U), lit '':'', Rep 2 (Some 2) (dg U)],
        ''Time range'', 2),
      (seqs [wb U, Grp 1 (alts [lit ''monday'', lit ''tuesday'', lit ''wednesday'', lit ''thursday'', lit ''friday'', lit ''saturday'', lit ''sunday'']), opt (lit ''s''), plus ws, dg U],
        ''Day + time'', 2),
      (seqs [wb U, Grp 1 (alts [lit ''due'', lit ''submit'', lit ''by'', lit ''before'']), star ws, opt (Grp 2 (alts [lit '':'', lit ''on'', lit ''by''])), star ws, Grp 3 (alts [lit ''jan'', lit ''feb'', lit ''mar'', lit ''apr'', lit ''may'', lit ''jun'', lit ''jul'', lit ''aug'', lit ''sep'', lit ''oct'', lit ''nov'', lit ''dec'', seqs [Rep 1 (Some 2) (dg U), lit ''/'']])],
        ''Due date'', 2),
      (seqs [wb U, plus (dg U), star ws, Grp 1 (alts [lit ''%'', lit ''percent'', seqs [lit ''point'', opt (lit ''s'')]]), wb U],
        ''Grading info'', 2),
      (seqs [wb U, Grp 1 (alts [lit ''grade'', lit ''grading'', lit ''evaluation'', lit ''attendance'', lit ''participation'']), wb U],
        ''Assessment term'', 2),
      (seqs [wb U, Grp 1 (alts [lit ''on canvas'', lit ''on blackboard'', lit ''on moodle'', lit ''on courseworks'', lit ''course reserve'']), wb U],
        ''LMS reference'', 2),
      (seqs [wb U, Grp 1 (alts [lit ''in person'', lit ''in-person'', lit ''zoom'', lit ''virtual'', lit ''hybrid'']), wb U],
        ''Meeting format'', 2),
      (seqs [wb U, Grp 1 (alts [lit ''film screening'', lit ''movie:'', lit ''watch:'', lit ''view:'', lit ''listen to'']), wb U],
        ''Media instruction'', 2),
      (seqs [wb U, Grp 1 (alts [lit ''response paper'', lit ''reflection'', lit ''blog post'', lit ''discussion post'', lit ''group project'', lit ''presentation'']), wb U],
        ''Assignment type'', 2)]"

definition instr_weak_patterns :: "unicode_db \<Rightarrow> (rx \<times> string \<times> int) list" where
  "instr_weak_patterns U =
     [(seqs [wb U, Grp 1 (alts [lit ''tba'', lit ''tbd'', lit ''to be announced'', lit ''to be determined'']), wb U],
        ''TBA/TBD'', 1),
      (seqs [wb U, Grp 1 (alts [lit ''see '', lit ''refer to'', lit ''check '', lit ''visit '']), wb U],
        ''Reference directive'', 1),
      (seqs [wb U, Grp 1 (alts [lit ''available on'', lit ''available at'', lit ''posted on'']), wb U],
        ''Availability info'', 1),
      (seqs [wb U, Grp 1 (alts [lit ''professor '', lit ''prof.'', lit ''prof '', lit ''dr.'', lit ''dr '', lit ''instructor:'']), wb U],
        ''Instructor reference'', 1),
      (seqs [wb U, Grp 1 (alts [lit ''classroom'', lit ''room '', lit ''location:'', lit ''class time'', lit ''meeting time'']), wb U],
        ''Location/time info'', 1),
      (seqs [wb U, Grp 1 (alts [lit ''this week'', lit ''this class'', lit ''today we'', lit ''we will'', lit ''we are'']), wb U],
        ''Class activity'', 1),
      (seqs [wb U, Grp 1 (alts [lit ''in class'', lit ''for class'', lit ''before class'', lit ''after class'']), wb U],
        ''Class context'', 1)]"

definition instr_negative_patterns :: "unicode_db \<Rightarrow> (rx \<times> string \<times> int) list" where
  "instr_negative_patterns U =
     [(seqs [Bol, Chr (cls U [CR 65 90]), plus (Chr (cls U [CR 97 122])), opt (seqs [plus ws, alts [lit ''and'', lit ''&''], plus ws, Chr (cls U [CR 65 90]), plus (Chr (cls U [CR 97 122]))]), star ws, Chr (cls U [CL 40, CL 44]), star ws, Rep 4 (Some 4) (dg U)],
        ''Author (Year) format'', -3),
      (seqs [wb U, lit ''p'', opt (lit ''p''), opt (lit ''.''), star ws, plus (dg U), opt (Chr (cls U [CL 45, CL 8211])), star (dg U)],
        ''Page numbers'', -2),
      (seqs [wb U, Grp 1 (alts [lit ''journal'', lit ''quarterly'', lit ''review'', lit ''studies'', lit ''proceedings'']), plus ws, lit ''of'', wb U],
        ''Academic journal'', -2),
      (seqs [wb U, Grp 1 (alts [lit ''university press'', lit ''oxford'', lit ''cambridge'', lit ''routledge'', lit ''sage'', lit ''springer'']), wb U],
        ''Publisher name'', -2),
      (alts [seqs [wb U, Grp 1 (alts [lit ''isbn'', lit ''doi'']), wb U], lit ''doi.org''],
        ''Academic identifier'', -2)]"

text \<open>
  The share of the analyzer in \<^verbatim>\<open>get_instruction_score\<close>, on the text without its bullets.
\<close>

definition instr_semantic_score :: "env \<Rightarrow> ustring \<Rightarrow> int" where
  "instr_semantic_score E t =
     (case nlp E of
        None \<Rightarrow> 0
      | Some A \<Rightarrow>
          (if has_instruction_pattern (analyze A t) then 4 else 0)
          + (if starts_with_verb (analyze A t) then 3 else 0)
          + (if has_publication_pattern (analyze A t) then - 3 else 0)
          + (if 2 \<le> length (persons (analyze A t)) then - 2 else 0))"

text \<open>
  \<^verbatim>\<open>get_instruction_score\<close>, the score only: every caller drops the reasons. The tables are
  searched in the lowercased text without bullets, the course description in the stripped
  text.
\<close>

definition get_instruction_score :: "env \<Rightarrow> ustring \<Rightarrow> int" where
  "get_instruction_score E t =
     instr_semantic_score E (strip_bullets (udb E) (strip t))
     + (if is_course_description (udb E) (strip t) then 4 else 0)
     + table_score (instr_strong_starters (udb E)) (lower (udb E) (strip_bullets (udb E) (strip t)))
     + table_score (instr_medium_patterns (udb E)) (lower (udb E) (strip_bullets (udb E) (strip t)))
     + table_score (instr_weak_patterns (udb E)) (lower (udb E) (strip_bullets (udb E) (strip t)))
     + table_score (instr_negative_patterns (udb E)) (lower (udb E) (strip_bullets (udb E) (strip t)))"

section \<open>Headers\<close>

definition header_keywords :: "string list" where
  "header_keywords =
     [''introduction'', ''overview'', ''conclusion'', ''review'', ''midterm'', ''final'', ''exam'', ''break'', ''holiday'', ''no class'', ''thanksgiving'', ''spring break'', ''readings'', ''required readings'', ''recommended readings'', ''optional readings'', ''assignments'', ''topics'', ''schedule'', ''theme'', ''topic'', ''course policies'', ''policies'', ''grading'', ''grade breakdown'', ''office hours'', ''contact'', ''instructor'', ''professor'', ''ta '', ''teaching assistant'', ''course objectives'', ''learning objectives'', ''course description'', ''description'', ''prerequisites'', ''materials'', ''required materials'', ''textbooks'', ''books'', ''resources'']"

definition course_code :: "unicode_db \<Rightarrow> rx" where
  "course_code U = seqs [Bol, Rep 2 (Some 5) (Chr (cls U [CR 65 90])), star ws, Rep 2 (Some 4) (dg U), Chr (cls U [CL 58, CatS, CL 45])]"

definition term_in_brackets :: "unicode_db \<Rightarrow> rx" where
  "term_in_brackets U = seqs [lit ''['', Grp 1 (alts [lit ''spring'', lit ''fall'', lit ''summer'', lit ''winter'']), plus ws, Rep 4 (Some 4) (dg U), lit '']'']"

definition term_in_parens :: "unicode_db \<Rightarrow> rx" where
  "term_in_parens U = seqs [lit ''('', Grp 1 (alts [lit ''spring'', lit ''fall'', lit ''summer'', lit ''winter'']), plus ws, Rep 4 (Some 4) (dg U), lit '')'']"

definition week_start :: "unicode_db \<Rightarrow> rx" where
  "week_start U = seqs [Bol, lit ''week'', star ws, plus (dg U)]"

definition session_start :: "unicode_db \<Rightarrow> rx" where
  "session_start U = seqs [Bol, Grp 1 (alts [lit ''session'', lit ''class'', lit ''module'', lit ''unit'', lit ''part'', lit ''section'', lit ''lecture'', lit ''seminar'', lit ''meeting'', lit ''day'']), star ws, plus (dg U)]"

definition month_day :: "unicode_db \<Rightarrow> rx" where
  "month_day U =
     seqs [Bol, Grp 1 (alts [lit ''january'', lit ''february'', lit ''march'', lit ''april'', lit ''may'', lit ''june'', lit ''july'', lit ''august'', lit ''september'', lit ''october'', lit ''november'', lit ''december'', lit ''jan'', lit ''feb'', lit ''mar'', lit ''apr'', lit ''may'', lit ''jun'', lit ''jul'', lit ''aug'', lit ''sep'', lit ''sept'', lit ''oct'', lit ''nov'', lit ''dec'']), opt (lit ''.''), plus ws, Rep 1 (Some 2) (dg U)]"

definition slash_date :: "unicode_db \<Rightarrow> rx" where
  "slash_date U = seqs [Bol, Rep 1 (Some 2) (dg U), lit ''/'', Rep 1 (Some 2) (dg U), opt (Grp 1 (seqs [lit ''/'', Rep 2 (Some 4) (dg U)])), Eol]"

definition weekday_start :: "unicode_db \<Rightarrow> rx" where
  "weekday_start U = seqs [Bol, Grp 1 (alts [lit ''monday'', lit ''tuesday'', lit ''wednesday'', lit ''thursday'', lit ''friday'', lit ''saturday'', lit ''sunday''])]"

definition roman_numeral :: "unicode_db \<Rightarrow> rx" where
  "roman_numeral U = seqs [Bol, plus (Chr (cls U [CL 73, CL 86, CL 88])), lit ''.'', ws]"

text \<open>
  \<^verbatim>\<open>is_header\<close>. \<open>header_lower\<close> is \<^verbatim>\<open>text.lower().strip()\<close> and \<open>header_clean\<close> is that
  without leading bullets. Every test of the source returns \<^verbatim>\<open>True\<close>, so the result is
  their disjunction, in the order of the source.
\<close>

definition header_lower :: "unicode_db \<Rightarrow> ustring \<Rightarrow> ustring" where
  "header_lower U t = strip (lower U t)"

definition header_clean :: "unicode_db \<Rightarrow> ustring \<Rightarrow> ustring" where
  "header_clean U t = strip_bullets U (header_lower U t)"

definition keyword_header :: "ustring \<Rightarrow> bool" where
  "keyword_header tc =
     list_ex (\<lambda>kw. tc = ustr kw \<or> startswith tc (ustr kw @ ustr '':'') \<or> startswith tc (ustr kw @ ustr '' -''))
       header_keywords"

definition is_header :: "unicode_db \<Rightarrow> ustring \<Rightarrow> bool" where
  "is_header U t =
     (matches (course_code U) (strip t)
      \<or> found (term_in_brackets U) (header_lower U t)
      \<or> found (term_in_parens U) (header_lower U t)
      \<or> matches (week_start U) (header_clean U t)
      \<or> matches (session_start U) (header_clean U t)
      \<or> matches (month_day U) (header_clean U t)
      \<or> matches (slash_date U) (header_clean U t)
      \<or> matches (weekday_start U) (header_clean U t)
      \<or> keyword_header (header_clean U t)
      \<or> (length t < 60 \<and> isupper U (replace_cp 32 [] t) \<and> 3 < length t)
      \<or> (length t < 40 \<and> endswith t (ustr '':''))
      \<or> matches (roman_numeral U) t)"

text \<open>
  \<^verbatim>\<open>is_week_header\<close>: the number after \<^verbatim>\<open>week\<close>, or \<^verbatim>\<open>None\<close>. The digits are
  converted by \<^verbatim>\<open>int\<close>, which raises on a run of more than 4300 of them.
\<close>

definition week_number :: "unicode_db \<Rightarrow> rx" where
  "week_number U = seqs [Bol, star ws, liti U ''week'', plus ws, Grp 1 (plus (dg U))]"

definition is_week_header :: "unicode_db \<Rightarrow> ustring \<Rightarrow> error + int option" where
  "is_week_header U t =
     (case re_match (week_number U) t of
        None \<Rightarrow> Inr None
      | Some (i, j, c) \<Rightarrow>
          (case py_int U (group t c 1) of Inl e \<Rightarrow> Inl e | Inr n \<Rightarrow> Inr (Some n)))"

text \<open>\<^verbatim>\<open>is_instruction\<close>: the score, unless the text is short or a header.\<close>

definition is_instruction :: "env \<Rightarrow> ustring \<Rightarrow> bool" where
  "is_instruction E t =
     (\<not> length (strip t) < 15 \<and> \<not> is_header (udb E) (strip t) \<and> 3 \<le> get_instruction_score E (strip t))"

section \<open>Readings\<close>

definition reading_strong_patterns :: "unicode_db \<Rightarrow> (rx \<times> string \<times> int) list" where
  "reading_strong_patterns U =
     [(seqs [Bol, Chr (ci U (cls U [CR 65 90])), plus (Chr (ci U (cls U [CR 97 122]))), opt (seqs [plus ws, alts [liti U ''and'', lit ''&''], plus ws, Chr (ci U (cls U [CR 65 90])), plus (Chr (ci U (cls U [CR 97 122])))]), star ws, Chr (cls U [CL 40, CL 44]), star ws, Rep 4 (Some 4) (dg U)],
        ''Author (Year)'', 3),
      (seqs [Bol, Chr (ci U (cls U [CR 65 90])), plus (Chr (ci U (cls U [CR 97 122]))), plus ws, liti U ''et'', plus ws, liti U ''al'', opt (lit ''.''), star ws, opt (Chr (cls U [CL 40, CL 44])), star ws, Rep 4 (Some 4) (dg U)],
        ''Author et al. (Year)'', 3),
      (seqs [Bol, Chr (ci U (cls U [CR 65 90])), plus (Chr (ci U (cls U [CR 97 122]))), lit '','', star ws, Chr (ci U (cls U [CR 65 90])), plus (Chr (ci U (cls U [CR 97 122, CL 46]))), star ws, Chr (cls U [CL 40, CL 44]), star ws, Rep 4 (Some 4) (dg U)],
        ''Last, First (Year)'', 3),
      (seqs [Chr (cls U [CL 34, CL 8220]), Rep 20 None (Chr (ncls U [CL 34, CL 8221])), Chr (cls U [CL 34, CL 8221])],
        ''Quoted title'', 3)]"

definition reading_medium_patterns :: "unicode_db \<Rightarrow> (rx \<times> string \<times> int) list" where
  "reading_medium_patterns U =
     [(seqs [lit ''('', Rep 4 (Some 4) (dg U), lit '')''],
        ''Year in parens'', 1),
      (seqs [lit '','', star ws, Rep 4 (Some 4) (dg U), Chr (cls U [CL 44, CL 46, CatS, CL 36])],
        ''Year after comma'', 1),
      (seqs [liti U ''p'', opt (liti U ''p''), opt (lit ''.''), star ws, plus (dg U), opt (Chr (cls U [CL 45, CL 8211])), star (dg U)],
        ''Page numbers'', 1),
      (seqs [liti U ''vol'', opt (lit ''.''), star ws, plus (dg U)],
        ''Volume'', 1),
      (seqs [liti U ''no'', opt (lit ''.''), star ws, plus (dg U)],
        ''Issue number'', 1),
      (seqs [wb U, liti U ''ch'', opt (liti U ''apter''), opt (lit ''.''), star ws, plus (dg U)],
        ''Chapter'', 1),
      (seqs [Chr (cls U [CL 34, CL 39, CL 8220, CL 8221]), Rep 15 None dot, Chr (cls U [CL 34, CL 39, CL 8220, CL 8221])],
        ''Quoted text'', 1),
      (seqs [wb U, Chr (ci U (cls U [CL 69, CL 101])), liti U ''d'', opt (alts [liti U ''s'', liti U ''ited'']), opt (lit ''.''), star ws, opt (liti U ''by''), star ws, Chr (ci U (cls U [CR 65 90]))],
        ''Editor'', 1),
      (seqs [wb U, Chr (ci U (cls U [CL 84, CL 116])), liti U ''rans'', opt (liti U ''lated''), opt (lit ''.''), star ws, opt (liti U ''by''), star ws, Chr (ci U (cls U [CR 65 90]))],
        ''Translator'', 1),
      (seqs [Chr (ci U (cls U [CL 85, CL 117])), liti U ''niversity'', plus ws, Chr (ci U (cls U [CL 80, CL 112])), liti U ''ress''],
        ''University Press'', 1),
      (seqs [Chr (ci U (cls U [CL 74, CL 106])), liti U ''ournal'', plus ws, liti U ''of'', plus ws, Chr (ci U (cls U [CR 65 90]))],
        ''Journal of...'', 1),
      (seqs [wb U, alts [liti U ''Quarterly'', liti U ''Review'', liti U ''Studies'', liti U ''Bulletin'', liti U ''Proceedings''], plus ws, opt (seqs [liti U ''of'', plus ws]), Chr (ci U (cls U [CR 65 90]))],
        ''Academic journal'', 1),
      (seqs [wb U, alts [liti U ''Oxford'', liti U ''Cambridge'', liti U ''Routledge'', liti U ''Sage'', liti U ''Springer'', liti U ''Wiley'', liti U ''Penguin'', liti U ''Harvard'', liti U ''Yale'', liti U ''Princeton''], wb U],
        ''Major publisher'', 1),
      (alts [seqs [wb U, alts [liti U ''ISBN'', liti U ''DOI''], wb U], liti U ''doi.org'', seqs [liti U ''doi:'', star ws, lit ''10.'']],
        ''Identifier'', 1),
      (seqs [lit ''('', plus (dg U), lit ''):'', star ws, plus (dg U), opt (Chr (cls U [CL 45, CL 8211])), star (dg U)],
        ''Vol(issue): pages'', 1),
      (seqs [wb U, liti U ''In:'', plus ws, Chr (ci U (cls U [CR 65 90])), plus (Chr (ci U (cls U [CR 97 122])))],
        ''In: anthology'', 1),
      (alts [seqs [wb U, liti U ''ed.'', plus ws, liti U ''by'', plus ws, Chr (ci U (cls U [CR 65 90]))], seqs [wb U, liti U ''edited'', plus ws, liti U ''by'', plus ws, Chr (ci U (cls U [CR 65 90]))]],
        ''Edited by'', 1),
      (alts [seqs [liti U ''excerpt'', opt (liti U ''s''), plus ws, liti U ''from''], seqs [liti U ''selection'', opt (liti U ''s''), plus ws, liti U ''from'']],
        ''Excerpt/selection'', 1)]"

definition reading_negative_patterns :: "unicode_db \<Rightarrow> (rx \<times> string \<times> int) list" where
  "reading_negative_patterns U =
     [(seqs [Bol, Grp 1 (alts [seqs [liti U ''http'', opt (liti U ''s''), lit ''://''], liti U ''www.'']), plus (Chr (ncls U [CatS])), Eol],
        ''URL only'', -2),
      (seqs [Bol, plus (dg U), star ws, Grp 1 (alts [lit ''%'', liti U ''percent'', seqs [liti U ''point'', opt (liti U ''s'')]])],
        ''Grading info'', -2),
      (seqs [Bol, Grp 1 (alts [liti U ''Monday'', liti U ''Tuesday'', liti U ''Wednesday'', liti U ''Thursday'', liti U ''Friday'', liti U ''Saturday'', liti U ''Sunday'']), wb U],
        ''Day of week'', -2),
      (seqs [Bol, Rep 1 (Some 2) (dg U), Chr (cls U [CL 58, CL 47]), Rep 2 (Some 2) (dg U)],
        ''Time'', -2),
      (seqs [wb U, liti U ''this course'', wb U],
        ''Course description'', -3),
      (seqs [wb U, liti U ''the course'', wb U],
        ''Course description'', -3),
      (seqs [wb U, liti U ''this class'', wb U],
        ''Course description'', -3),
      (seqs [wb U, liti U ''students will'', wb U],
        ''Course description'', -3),
      (seqs [wb U, liti U ''students learn'', wb U],
        ''Course description'', -3),
      (seqs [wb U, liti U ''we will'', wb U],
        ''Course description'', -2),
      (seqs [wb U, liti U ''office hours'', wb U],
        ''Office hours'', -3),
      (seqs [Rep 1 (Some 2) (dg U), lit '':'', Rep 2 (Some 2) (dg U), star ws, Chr (cls U [CL 45, CL 8211]), star ws, Rep 1 (Some 2) (dg U), lit '':'', Rep 2 (Some 2) (dg U)],
        ''Time range'', -2),
      (seqs [wb U, liti U ''what is'', wb U, star dot, lit ''?''],
        ''Question'', -2),
      (seqs [wb U, liti U ''how do'', wb U, star dot, lit ''?''],
        ''Question'', -2),
      (seqs [wb U, liti U ''in person'', wb U],
        ''Meeting format'', -2)]"

datatype reason = Nlp sem_reason | Rule string int

text \<open>
  The test \<^verbatim>\<open>'[NLP]' in r and 'person' in r.lower()\<close> on the reasons: only the reasons of the
  analyzer carry the tag, and \<^verbatim>\<open>person\<close> is in the fixed words of the first of them or in
  the text another one quotes.
\<close>

fun mentions_person :: "unicode_db \<Rightarrow> sem_reason \<Rightarrow> bool" where
  "mentions_person U (FoundPersons n ps) = True"
| "mentions_person U (PublisherOrg org) = contains (lower U org) (ustr ''person'')"
| "mentions_person U (PublicationYear d) = contains (lower U d) (ustr ''person'')"
| "mentions_person U (TitleDetected w) = contains (lower U w) (ustr ''person'')"
| "mentions_person U PublicationPattern = False"
| "mentions_person U InstructionPattern = False"
| "mentions_person U ImperativeStart = False"

definition reading_semantic :: "env \<Rightarrow> ustring \<Rightarrow> int \<times> sem_reason list" where
  "reading_semantic E t = (case nlp E of None \<Rightarrow> (0, []) | Some A \<Rightarrow> get_semantic_score (udb E) A t)"

definition author_bonus :: "env \<Rightarrow> ustring \<Rightarrow> bool" where
  "author_bonus E tc =
     (\<not> list_ex (mentions_person (udb E)) (snd (reading_semantic E tc)) \<and> looks_like_author (udb E) tc)"

text \<open>
  \<^verbatim>\<open>get_reading_score\<close> on \<open>tc\<close>, the stripped text without its bullets: the analyzer, the
  three tables (searched with \<^verbatim>\<open>re.I\<close>), the author bonus and the length bonus.
\<close>

definition reading_score_clean :: "env \<Rightarrow> ustring \<Rightarrow> int" where
  "reading_score_clean E tc =
     fst (reading_semantic E tc)
     + table_score (reading_strong_patterns (udb E)) tc
     + table_score (reading_medium_patterns (udb E)) tc
     + (if author_bonus E tc then 2 else 0)
     + (if 80 < length tc then 1 else 0)
     + table_score (reading_negative_patterns (udb E)) tc"

definition reading_reasons_clean :: "env \<Rightarrow> ustring \<Rightarrow> reason list" where
  "reading_reasons_clean E tc =
     map Nlp (snd (reading_semantic E tc))
     @ map (\<lambda>(n, w). Rule n w) (table_reasons (reading_strong_patterns (udb E)) tc)
     @ map (\<lambda>(n, w). Rule n w) (table_reasons (reading_medium_patterns (udb E)) tc)
     @ (if author_bonus E tc then [Rule ''Starts with author name'' 2] else [])
     @ (if 80 < length tc then [Rule ''Substantial length'' 1] else [])
     @ map (\<lambda>(n, w). Rule n w) (table_reasons (reading_negative_patterns (udb E)) tc)"

definition get_reading_score :: "env \<Rightarrow> ustring \<Rightarrow> int \<times> reason list" where
  "get_reading_score E t =
     (reading_score_clean E (strip_bullets (udb E) (strip t)),
      reading_reasons_clean E (strip_bullets (udb E) (strip t)))"

text \<open>\<^verbatim>\<open>is_reading\<close>: the score, unless the text is short, a header or an instruction.\<close>

definition is_reading :: "env \<Rightarrow> ustring \<Rightarrow> bool" where
  "is_reading E t =
     (\<not> length (strip t) < 20
      \<and> \<not> (is_header (udb E) (strip t) \<or> is_instruction E (strip t))
      \<and> 3 \<le> fst (get_reading_score E (strip t)))"

section \<open>Splitting concatenated readings\<close>

text \<open>A segment is kept when, stripped, it has more than 25 characters.\<close>

definition keep :: "ustring \<Rightarrow> bool" where
  "keep s = (s \<noteq> [] \<and> 25 < length s)"

definition add_kept :: "ustring list \<Rightarrow> ustring \<Rightarrow> ustring list" where
  "add_kept rs s = (if keep s then rs @ [s] else rs)"

text \<open>
  Strategy 1: \<^verbatim>\<open>re.split\<close> on the end of one citation followed by the author and year of
  the next. The parts come in threes: text, separator, author and year. The separator stays
  with the text before it, the author and year start the next segment.
\<close>

definition split_pattern :: "unicode_db \<Rightarrow> rx" where
  "split_pattern U =
     seqs [Grp 1 (alts [seqs [lit ''.'', star ws], seqs [lit '')'', star ws, opt (lit ''.''), star ws]]), Grp 2 (seqs [Chr (cls U [CR 65 90]), plus (Chr (cls U [CR 97 122])), opt (seqs [plus ws, alts [lit ''and'', lit ''&''], plus ws, Chr (cls U [CR 65 90]), plus (Chr (cls U [CR 97 122]))]), opt (seqs [plus ws, lit ''et'', plus ws, lit ''al'', opt (lit ''.'')]), star ws, Chr (cls U [CL 40, CL 44]), star ws, Rep 4 (Some 4) (dg U)])]"

fun strategy1_loop :: "nat \<Rightarrow> ustring \<Rightarrow> ustring list \<Rightarrow> ustring list \<Rightarrow> ustring list" where
  "strategy1_loop i cur rs [] = add_kept rs (strip cur)"
| "strategy1_loop i cur rs (part # parts) =
     (if i mod 3 = 0 then strategy1_loop (Suc i) (cur @ part) rs parts
      else if i mod 3 = 1 then strategy1_loop (Suc i) (cur @ part) rs parts
      else strategy1_loop (Suc i) part (add_kept rs (strip cur)) parts)"

definition strategy1 :: "unicode_db \<Rightarrow> ustring \<Rightarrow> ustring list" where
  "strategy1 U t =
     (if 1 < length (re_split (split_pattern U) [1, 2] t)
      then strategy1_loop 0 [] [] (re_split (split_pattern U) [1, 2] t)
      else [])"

text \<open>
  Strategy 2: numbered or bulleted items. A part that is a marker closes the current
  segment; any other part is added to it.
\<close>

definition bullet_pattern :: "unicode_db \<Rightarrow> rx" where
  "bullet_pattern U =
     seqs [alts [Bol, Chr (cls U [CL 46, CatS])], Grp 1 (alts [seqs [plus (dg U), Chr (cls U [CL 46, CL 41]), star ws], seqs [Chr (cls U [CL 45, CL 8226, CL 9679, CL 9675]), star ws]]), Grp 2 (seqs [Chr (cls U [CR 65 90]), plus (Chr (cls U [CR 97 122]))])]"

definition bullet_split :: "unicode_db \<Rightarrow> rx" where
  "bullet_split U =
     seqs [alts [Bol, ws], Grp 1 (alts [seqs [plus (dg U), Chr (cls U [CL 46, CL 41]), star ws], seqs [Chr (cls U [CL 45, CL 8226, CL 9679, CL 9675]), star ws]]), Ahead (seqs [Chr (cls U [CR 65 90]), plus (Chr (cls U [CR 97 122]))])]"

definition marker_only :: "unicode_db \<Rightarrow> rx" where
  "marker_only U = seqs [Bol, Grp 1 (alts [seqs [plus (dg U), Chr (cls U [CL 46, CL 41])], Chr (cls U [CL 45, CL 8226, CL 9679, CL 9675])]), Eol]"

fun strategy2_loop :: "unicode_db \<Rightarrow> ustring \<Rightarrow> ustring list \<Rightarrow> ustring list \<Rightarrow> ustring list" where
  "strategy2_loop U cur rs [] = add_kept rs cur"
| "strategy2_loop U cur rs (part # parts) =
     (if strip part = [] then strategy2_loop U cur rs parts
      else if matches (marker_only U) (strip part) then strategy2_loop U [] (add_kept rs cur) parts
      else strategy2_loop U (if cur \<noteq> [] then cur @ [32] @ strip part else strip part) rs parts)"

definition strategy2 :: "unicode_db \<Rightarrow> ustring \<Rightarrow> ustring list" where
  "strategy2 U t =
     (if found (bullet_pattern U) t
      then strategy2_loop U [] [] (re_split (bullet_split U) [1] t)
      else [])"

text \<open>
  Strategy 3: \<^verbatim>\<open>text.split(';')\<close>. A long part that looks like a reading starts a segment,
  any other long part is appended to the last segment with \<^verbatim>\<open>"; "\<close>.
\<close>

fun split_on :: "nat \<Rightarrow> ustring \<Rightarrow> ustring \<Rightarrow> ustring list" where
  "split_on a cur [] = [cur]"
| "split_on a cur (c # cs) = (if c = a then cur # split_on a [] cs else split_on a (cur @ [c]) cs)"

fun strategy3_loop :: "unicode_db \<Rightarrow> ustring list \<Rightarrow> ustring list \<Rightarrow> ustring list" where
  "strategy3_loop U rs [] = rs"
| "strategy3_loop U rs (part # parts) =
     (if keep (strip part)
      then (if looks_like_author U (strip part) \<or> found (year_in_parens U) (strip part)
            then strategy3_loop U (rs @ [strip part]) parts
            else if rs \<noteq> []
            then strategy3_loop U (butlast rs @ [last rs @ ustr ''; '' @ strip part]) parts
            else strategy3_loop U (rs @ [strip part]) parts)
      else strategy3_loop U rs parts)"

definition strategy3 :: "unicode_db \<Rightarrow> ustring \<Rightarrow> ustring list" where
  "strategy3 U t = (if 59 \<in> set t then strategy3_loop U [] (split_on 59 [] t) else [])"

text \<open>
  Strategy 4: for every author and year after the first, the split point is behind the
  nearest period or semicolon followed by a space (or by the end) at most 19 characters
  back, or else behind the nearest closing parenthesis followed by a space at most 9
  characters back; neither search goes back beyond the last split point. \<open>back_range a lo\<close>
  is \<^verbatim>\<open>range(a - 1, lo, -1)\<close>.
\<close>

definition back_range :: "nat \<Rightarrow> nat \<Rightarrow> nat list" where
  "back_range a lo = rev [Suc lo..<a]"

definition stop_at :: "ustring \<Rightarrow> nat \<Rightarrow> bool" where
  "stop_at t j = ((t ! j = 46 \<or> t ! j = 59) \<and> (length t \<le> j + 1 \<or> t ! (j + 1) = 32))"

definition paren_at :: "ustring \<Rightarrow> nat \<Rightarrow> bool" where
  "paren_at t j = (t ! j = 41 \<and> j + 1 < length t \<and> t ! (j + 1) = 32)"

definition split_point :: "ustring \<Rightarrow> nat \<Rightarrow> nat \<Rightarrow> nat option" where
  "split_point t last_end a =
     (case List.find (stop_at t) (back_range a (max last_end (a - 20))) of
        Some j \<Rightarrow> Some (j + 1)
      | None \<Rightarrow>
          (case List.find (paren_at t) (back_range a (max last_end (a - 10))) of
             Some j \<Rightarrow> Some (j + 1)
           | None \<Rightarrow> None))"

fun strategy4_loop :: "ustring \<Rightarrow> nat \<Rightarrow> ustring list \<Rightarrow> nat list \<Rightarrow> ustring list" where
  "strategy4_loop t last_end rs [] = add_kept rs (strip (drop last_end t))"
| "strategy4_loop t last_end rs (a # as) =
     (case split_point t last_end a of
        None \<Rightarrow> strategy4_loop t last_end rs as
      | Some sp \<Rightarrow>
          (if last_end < sp
           then strategy4_loop t sp (add_kept rs (strip (substr t last_end sp))) as
           else strategy4_loop t last_end rs as))"

definition strategy4 :: "unicode_db \<Rightarrow> ustring \<Rightarrow> ustring list" where
  "strategy4 U t =
     (if 1 < length (extract_author_year_pairs U t)
      then strategy4_loop t 0 [] (tl (map fst (extract_author_year_pairs U t)))
      else [])"

text \<open>
  \<^verbatim>\<open>split_concatenated_readings\<close>: the text is normalized first; the strategies are tried in
  order and the first with more than one segment wins.
\<close>

definition split_normalized :: "unicode_db \<Rightarrow> ustring \<Rightarrow> ustring list" where
  "split_normalized U t =
     (if t = [] then []
      else if length t < 40 then [t]
      else if 1 < length (strategy1 U t) then strategy1 U t
      else if 1 < length (strategy2 U t) then strategy2 U t
      else if 1 < length (strategy3 U t) then strategy3 U t
      else if 1 < length (strategy4 U t) then strategy4 U t
      else [t])"

definition split_concatenated_readings :: "unicode_db \<Rightarrow> ustring \<Rightarrow> ustring list" where
  "split_concatenated_readings U t = split_normalized U (normalize_pdf_text U t)"

section \<open>Split points\<close>

definition split_point_patterns :: "unicode_db \<Rightarrow> rx list" where
  "split_point_patterns U =
     [seqs [Behind (cls U [CL 46, CL 33, CL 63, CL 41, CL 93, CL 34, CL 39, CatS]), star ws, Grp 1 (Rep 1 (Some 2) (dg U)), Chr (cls U [CL 46, CL 41]), plus ws, Ahead (Chr (cls U [CR 65 90]))],
      seqs [Behind (cls U [CL 46, CL 33, CL 63, CL 41, CL 93, CL 34, CL 39, CatS]), star ws, lit ''('', Grp 1 (Rep 1 (Some 2) (dg U)), lit '')'', star ws, Ahead (Chr (cls U [CR 65 90]))],
      seqs [Behind (cls U [CL 46, CL 33, CL 63, CL 41, CL 93, CL 34, CL 39, CatS]), star ws, Grp 1 (Chr (cls U [CR 97 122, CR 65 90])), Chr (cls U [CL 46, CL 41]), plus ws, Ahead (Chr (cls U [CR 65 90]))],
      seqs [Behind (cls U [CL 46, CL 33, CL 63, CL 41, CL 93, CL 34, CL 39, CatS]), star ws, Grp 1 (Chr (cls U [CL 8226, CL 45, CL 42, CL 9702])), plus ws, Ahead (Chr (cls U [CR 65 90]))],
      seqs [Behind (cls U [CL 46, CL 59, CL 33, CL 63]), plus ws, Ahead (seqs [Chr (cls U [CR 65 90]), plus (Chr (cls U [CR 97 122])), opt (seqs [lit '','', star ws, Chr (cls U [CR 65 90]), opt (lit ''.'')]), star ws, opt (seqs [lit ''et al'', opt (lit ''.'')]), star ws, lit ''('', Rep 4 (Some 4) (dg U)])]]"

text \<open>The candidates: the start of every match, of every pattern, that is beyond offset 10.\<close>

definition candidates :: "unicode_db \<Rightarrow> ustring \<Rightarrow> nat list" where
  "candidates U t =
     concat (map (\<lambda>r. filter (\<lambda>p. 10 < p) (map fst (finditer r t))) (split_point_patterns U))"

text \<open>The loop that drops a point less than 30 after the last kept one, from \<^verbatim>\<open>-30\<close>.\<close>

fun gap_filter :: "int \<Rightarrow> nat list \<Rightarrow> nat list" where
  "gap_filter last_pos [] = []"
| "gap_filter last_pos (p # ps) =
     (if 30 \<le> int p - last_pos then p # gap_filter (int p) ps else gap_filter last_pos ps)"

definition find_split_points :: "unicode_db \<Rightarrow> ustring \<Rightarrow> nat list" where
  "find_split_points U t = gap_filter (- 30) (sort (remdups (candidates U t)))"

section \<open>Merging fragmented lines\<close>

text \<open>
  \<^verbatim>\<open>first_person.split()[-1]\<close>: the last run of characters that are not whitespace. On a
  string with no such character \<^verbatim>\<open>split()\<close> is empty and the index raises.
\<close>

definition last_token :: "ustring \<Rightarrow> error + ustring" where
  "last_token s =
     (if strip s = [] then Inl IndexError
      else Inr (rev (takeWhile (\<lambda>c. \<not> isspace c) (rev (rstrip s)))))"

definition incomplete_endings :: "ustring list" where
  "incomplete_endings =
     [ustr '' in'', ustr '' in:'', ustr '' the'', ustr '' a'', ustr '' an'', ustr '' and'', ustr '' or'', ustr '' of'', ustr '' for'', ustr '' to'', ustr '' by'', ustr '' from'', ustr '' with'', ustr '' on'', ustr '' at'', ustr '' as'', ustr '','', ustr '':'', ustr '';'', ustr '' vol'', ustr '' vol.'', ustr '' pp'', ustr '' pp.'', ustr '' ed'', ustr '' ed.'', ustr '' eds'', ustr '' eds.'', ustr '' trans'', ustr '' trans.'', ustr '' chapter'', ustr '' ch'', ustr '' ch.'', ustr ''&'', ustr '' new'', ustr '' york'', ustr '' cambridge'', ustr '' oxford'', ustr '' london'', ustr '' chicago'']"

definition ends_mid_word :: "unicode_db \<Rightarrow> rx" where
  "ends_mid_word U = seqs [Chr (cls U [CR 97 122]), lit ''-'', Eol]"

definition ends_capitalized :: "unicode_db \<Rightarrow> rx" where
  "ends_capitalized U = seqs [ws, Chr (cls U [CR 65 90]), plus (Chr (cls U [CR 97 122])), Eol]"

definition ends_capitalized_after_period :: "unicode_db \<Rightarrow> rx" where
  "ends_capitalized_after_period U = seqs [lit ''.'', star ws, Chr (cls U [CR 65 90]), plus (Chr (cls U [CR 97 122])), Eol]"

definition ends_terminal :: "unicode_db \<Rightarrow> rx" where
  "ends_terminal U = seqs [Chr (cls U [CL 46, CL 33, CL 63, CL 41, CL 93, CatD]), Eol]"

definition quote_char :: "unicode_db \<Rightarrow> rx" where
  "quote_char U = Chr (cls U [CL 34, CL 8220, CL 8221])"

text \<open>
  \<^verbatim>\<open>is_incomplete_line\<close> on the stripped text \<open>t\<close>: the test of the analyzer, then the
  rules.
\<close>

definition reading_like :: "unicode_db \<Rightarrow> ustring \<Rightarrow> bool" where
  "reading_like U t = (looks_like_author U t \<or> found (year_in_parens U) t)"

definition incomplete_semantic :: "env \<Rightarrow> ustring \<Rightarrow> bool" where
  "incomplete_semantic E t =
     (case nlp E of
        None \<Rightarrow> False
      | Some A \<Rightarrow> \<not> complete_sentence A t \<and> (reading_like (udb E) t \<or> 30 < length t))"

definition incomplete_rules :: "unicode_db \<Rightarrow> ustring \<Rightarrow> bool" where
  "incomplete_rules U t =
     (list_ex (endswith (lower U t)) incomplete_endings
      \<or> endswith t [34] \<or> endswith t [39] \<or> endswith t [8220]
      \<or> found (ends_mid_word U) t
      \<or> (found (ends_capitalized U) t \<and> \<not> endswith t (ustr ''.'')
          \<and> \<not> found (ends_capitalized_after_period U) t)
      \<or> (\<not> found (ends_terminal U) t \<and> (reading_like U t \<or> found (quote_char U) t)))"

definition is_incomplete_line :: "env \<Rightarrow> ustring \<Rightarrow> bool" where
  "is_incomplete_line E t =
     (strip t \<noteq> [] \<and> (incomplete_semantic E (strip t) \<or> incomplete_rules (udb E) (strip t)))"

definition journal_starts :: "string list" where
  "journal_starts =
     [''Journal'', ''Quarterly'', ''Review'', ''Studies'', ''Research'', ''Bulletin'', ''Proceedings'', ''American'', ''British'', ''International'', ''Annual'', ''European'', ''Canadian'', ''Australian'', ''African'', ''Asian'', ''Latin'', ''Social'', ''Cultural'', ''Political'', ''Economic'', ''Historical'', ''Inquiry'', ''Analysis'', ''Perspectives'', ''Theory'', ''Practice'', ''Signs'', ''Gender'', ''Feminist'', ''Women'', ''Men'', ''Sexuality'']"

definition publisher_starts :: "string list" where
  "publisher_starts =
     [''Oxford'', ''Cambridge'', ''Routledge'', ''Sage'', ''Springer'', ''Wiley'', ''University'', ''Press'', ''Books'', ''Publishing'', ''Publishers'', ''Harper'', ''Random'', ''Penguin'', ''Basic'', ''Free'', ''Duke'', ''MIT'', ''Harvard'', ''Yale'', ''Princeton'', ''Stanford'', ''Chicago'', ''California'', ''New York'', ''London'', ''Boston'', ''Philadelphia'']"

definition volume_start :: "unicode_db \<Rightarrow> rx" where
  "volume_start U =
     seqs [Bol, Grp 1 (alts [seqs [liti U ''Vol'', opt (lit ''.'')], liti U ''Volume'', seqs [liti U ''p'', opt (liti U ''p''), opt (lit ''.'')], liti U ''Issue'', seqs [liti U ''No'', opt (lit ''.'')], liti U ''Chapter'', seqs [liti U ''Ch'', opt (lit ''.'')]]), star ws, dg U]"

definition number_start :: "unicode_db \<Rightarrow> rx" where
  "number_start U = seqs [Bol, plus (dg U), star ws, Chr (cls U [CL 45, CL 8211, CL 58, CL 40, CL 41])]"

definition issue_start :: "unicode_db \<Rightarrow> rx" where
  "issue_start U = seqs [Bol, lit ''('', plus (dg U), lit '')'']"

definition editor_start :: "unicode_db \<Rightarrow> rx" where
  "editor_start U = seqs [Bol, Grp 1 (alts [liti U ''ed.'', liti U ''eds.'', liti U ''trans.'', liti U ''translated''])]"

definition conjunction_start :: "unicode_db \<Rightarrow> rx" where
  "conjunction_start U =
     seqs [Bol, Grp 1 (alts [liti U ''and'', liti U ''or'', liti U ''in'', liti U ''of'', liti U ''for'', liti U ''the'', liti U ''a'', liti U ''an'']), ws]"

definition digits_punct_only :: "unicode_db \<Rightarrow> rx" where
  "digits_punct_only U = seqs [Bol, plus (Chr (cls U [CatD, CatS, CL 45, CL 8211, CL 58, CL 44, CL 40, CL 41, CL 46])), Eol]"

definition page_range_only :: "unicode_db \<Rightarrow> rx" where
  "page_range_only U = seqs [Bol, plus (dg U), Chr (cls U [CL 45, CL 8211]), plus (dg U), opt (lit ''.''), Eol]"

definition author_start :: "unicode_db \<Rightarrow> rx" where
  "author_start U =
     seqs [Bol, Chr (cls U [CR 65 90]), plus (Chr (cls U [CR 97 122])), plus (Chr (cls U [CL 44, CatS])), alts [Chr (cls U [CR 65 90]), lit ''and'', lit ''('', Rep 4 (Some 4) (dg U)]]"

definition capitalized_start :: "unicode_db \<Rightarrow> rx" where
  "capitalized_start U = seqs [Bol, Chr (cls U [CR 65 90]), plus (Chr (cls U [CR 97 122]))]"

definition author_year_start :: "unicode_db \<Rightarrow> rx" where
  "author_year_start U = seqs [Bol, Chr (cls U [CR 65 90]), plus (Chr (cls U [CR 97 122])), star ws, Chr (cls U [CL 40, CL 44]), star ws, Rep 4 (Some 4) (dg U)]"

text \<open>
  The analyzer's veto in \<^verbatim>\<open>is_continuation_line\<close>: the text starts with the first person
  name, or with its last word.
\<close>

definition starts_with_person :: "env \<Rightarrow> ustring \<Rightarrow> error + bool" where
  "starts_with_person E t =
     (case nlp E of
        None \<Rightarrow> Inr False
      | Some A \<Rightarrow>
          (case persons (analyze A t) of
             [] \<Rightarrow> Inr False
           | fp # _ \<Rightarrow>
               (if startswith t fp then Inr True
                else case last_token fp of Inl e \<Rightarrow> Inl e | Inr w \<Rightarrow> Inr (startswith t w))))"

definition continuation_rules :: "unicode_db \<Rightarrow> ustring \<Rightarrow> bool" where
  "continuation_rules U t =
     (cp_islower U (hd t)
      \<or> matches (volume_start U) t
      \<or> matches (number_start U) t
      \<or> matches (issue_start U) t
      \<or> list_ex (\<lambda>j. startswith t (ustr j)) journal_starts
      \<or> list_ex (\<lambda>p. startswith t (ustr p)) publisher_starts
      \<or> startswith t [34] \<or> startswith t [39] \<or> startswith t [8221] \<or> startswith t (ustr '')'')
      \<or> matches (editor_start U) t
      \<or> matches (conjunction_start U) t
      \<or> (length t < 40 \<and> (matches (digits_punct_only U) t \<or> found (page_range_only U) t))
      \<or> (\<not> matches (author_start U) t \<and> matches (capitalized_start U) t
          \<and> \<not> found (author_year_start U) t))"

text \<open>
  \<^verbatim>\<open>is_continuation_line\<close>. \<open>hd\<close> reads the first character of a text that is not empty
  there.
\<close>

definition is_continuation_line :: "env \<Rightarrow> ustring \<Rightarrow> error + bool" where
  "is_continuation_line E t =
     (if strip t = [] then Inr False
      else case starts_with_person E (strip t) of
             Inl e \<Rightarrow> Inl e
           | Inr True \<Rightarrow> Inr False
           | Inr False \<Rightarrow> Inr (continuation_rules (udb E) (strip t)))"

definition new_citation :: "unicode_db \<Rightarrow> rx" where
  "new_citation U =
     seqs [Bol, Chr (cls U [CR 65 90]), plus (Chr (cls U [CR 97 122])), opt (seqs [lit '','', star ws, Chr (cls U [CR 65 90]), opt (lit ''.'')]), star ws, lit ''('', Rep 4 (Some 4) (dg U), lit '')'']"

definition capitalized_then_year :: "unicode_db \<Rightarrow> rx" where
  "capitalized_then_year U =
     seqs [Bol, Chr (cls U [CR 65 90]), plus (Chr (cls U [CR 97 122])), star dot, lit ''('', Rep 4 (Some 4) (dg U), lit '')'']"

definition volume_or_digit :: "unicode_db \<Rightarrow> rx" where
  "volume_or_digit U = seqs [Bol, Grp 1 (alts [liti U ''Vol'', seqs [liti U ''p'', opt (liti U ''p'')], liti U ''Issue'', dg U])]"

definition citation_ending :: "unicode_db \<Rightarrow> rx" where
  "citation_ending U =
     seqs [Bol, plus (Chr (cls U [CatW, CatS, CL 44])), opt (lit '',''), star ws, opt (Grp 1 (alts [seqs [liti U ''Vol'', opt (lit ''.'')], seqs [liti U ''p'', opt (liti U ''p''), opt (lit ''.'')], liti U ''Issue''])), star ws, dg U]"

text \<open>
  The characters that end a line: period, exclamation mark, question mark, closing
  parenthesis and bracket, the closing double quote U+201D and the ASCII double quote.
\<close>

definition terminal_char :: "nat \<Rightarrow> bool" where
  "terminal_char c = (c = 46 \<or> c = 33 \<or> c = 63 \<or> c = 41 \<or> c = 93 \<or> c = 8221 \<or> c = 34)"

text \<open>
  The analyzer's veto in \<^verbatim>\<open>should_merge_lines\<close>: the next line starts with the last word
  of the first person name and has a year in parentheses in its first 60 characters.
\<close>

definition next_starts_person :: "env \<Rightarrow> ustring \<Rightarrow> error + bool" where
  "next_starts_person E nxt =
     (case nlp E of
        None \<Rightarrow> Inr False
      | Some A \<Rightarrow>
          (case persons (analyze A nxt) of
             [] \<Rightarrow> Inr False
           | fp # _ \<Rightarrow>
               (if fp = [] then Inr False
                else case last_token fp of
                       Inl e \<Rightarrow> Inl e
                     | Inr w \<Rightarrow> Inr (startswith nxt w \<and> found (year_in_parens (udb E)) (take 60 nxt)))))"

text \<open>The last two tests of \<^verbatim>\<open>should_merge_lines\<close>, made only with the analyzer.\<close>

definition merge_semantic :: "env \<Rightarrow> ustring \<Rightarrow> ustring \<Rightarrow> bool" where
  "merge_semantic E prev nxt =
     (case nlp E of
        None \<Rightarrow> False
      | Some A \<Rightarrow>
          (\<not> complete_sentence A prev \<and> complete_sentence A (prev @ [32] @ nxt))
          \<or> (prev \<noteq> [] \<and> \<not> terminal_char (last prev) \<and> nxt \<noteq> [] \<and> cp_islower (udb E) (hd nxt)))"

text \<open>
  The merge tests after the vetoes, for a previous line known to be incomplete or not:
  \<^verbatim>\<open>is_continuation_line\<close> is called only when the previous line is incomplete.
\<close>

definition merge_rules :: "env \<Rightarrow> ustring \<Rightarrow> ustring \<Rightarrow> error + bool" where
  "merge_rules E prev nxt =
     (if is_incomplete_line E prev
      then (case is_continuation_line E nxt of
              Inl e \<Rightarrow> Inl e
            | Inr True \<Rightarrow> Inr True
            | Inr False \<Rightarrow>
                Inr (matches (volume_or_digit (udb E)) nxt
                     \<or> (length nxt < 50 \<and> matches (citation_ending (udb E)) nxt)
                     \<or> merge_semantic E prev nxt))
      else Inr (merge_semantic E prev nxt))"

definition should_merge_lines :: "env \<Rightarrow> ustring \<Rightarrow> ustring \<Rightarrow> error + bool" where
  "should_merge_lines E prev nxt =
     (if matches (new_citation (udb E)) nxt then Inr False
      else if looks_like_author (udb E) nxt \<and> found (year_in_parens (udb E)) (take 50 nxt) then Inr False
      else case next_starts_person E nxt of
             Inl e \<Rightarrow> Inl e
           | Inr True \<Rightarrow> Inr False
           | Inr False \<Rightarrow>
               (if prev \<noteq> [] \<and> terminal_char (last prev) \<and> matches (capitalized_then_year (udb E)) nxt
                then Inr False
                else merge_rules E prev nxt))"

text \<open>
  \<^verbatim>\<open>merge_fragmented_lines\<close>: one pass with the unit being built. A line whose stripped
  text is empty is skipped.
\<close>

record line =
  ltext :: ustring
  lstart :: int
  lend :: int

record unit =
  utext :: ustring
  full_text :: ustring
  ustart :: int
  uend :: int

definition display :: "ustring \<Rightarrow> ustring" where
  "display t = take 80 t @ (if 80 < length t then ustr ''...'' else [])"

definition new_unit :: "line \<Rightarrow> unit" where
  "new_unit item =
     \<lparr> utext = ltext item, full_text = strip (ltext item), ustart = lstart item, uend = lend item \<rparr>"

definition extend_unit :: "unit \<Rightarrow> line \<Rightarrow> unit" where
  "extend_unit cur item =
     cur \<lparr> full_text := full_text cur @ [32] @ strip (ltext item),
           utext := display (full_text cur @ [32] @ strip (ltext item)),
           uend := lend item \<rparr>"

fun merge_loop :: "env \<Rightarrow> unit list \<Rightarrow> unit option \<Rightarrow> line list \<Rightarrow> error + unit list" where
  "merge_loop E merged cur [] = Inr (case cur of None \<Rightarrow> merged | Some c \<Rightarrow> merged @ [c])"
| "merge_loop E merged cur (item # items) =
     (if strip (ltext item) = [] then merge_loop E merged cur items
      else case cur of
             None \<Rightarrow> merge_loop E merged (Some (new_unit item)) items
           | Some c \<Rightarrow>
               (case should_merge_lines E (full_text c) (strip (ltext item)) of
                  Inl e \<Rightarrow> Inl e
                | Inr True \<Rightarrow> merge_loop E merged (Some (extend_unit c item)) items
                | Inr False \<Rightarrow> merge_loop E (merged @ [c]) (Some (new_unit item)) items))"

definition merge_fragmented_lines :: "env \<Rightarrow> line list \<Rightarrow> error + unit list" where
  "merge_fragmented_lines E lines = merge_loop E [] None lines"

section \<open>Classification\<close>

definition url_pattern :: "unicode_db \<Rightarrow> rx" where
  "url_pattern U =
     seqs [lit ''http'', opt (lit ''s''), lit ''://'', plus (Chr (ncls U [CatS, CL 60, CL 62, CL 34, CL 39, CL 41, CL 93])), Chr (ncls U [CatS, CL 60, CL 62, CL 34, CL 39, CL 41, CL 93, CL 46, CL 44, CL 59, CL 58, CL 33, CL 63])]"

definition www_pattern :: "unicode_db \<Rightarrow> rx" where
  "www_pattern U =
     seqs [lit ''www.'', plus (Chr (ncls U [CatS, CL 60, CL 62, CL 34, CL 39, CL 41, CL 93])), Chr (ncls U [CatS, CL 60, CL 62, CL 34, CL 39, CL 41, CL 93, CL 46, CL 44, CL 59, CL 58, CL 33, CL 63])]"

definition extract_url :: "unicode_db \<Rightarrow> ustring \<Rightarrow> ustring option" where
  "extract_url U t =
     (case re_search (url_pattern U) t of
        Some (i, j, c) \<Rightarrow> Some (substr t i j)
      | None \<Rightarrow>
          (case re_search (www_pattern U) t of
             Some (i, j, c) \<Rightarrow> Some (ustr ''https://'' @ substr t i j)
           | None \<Rightarrow> None))"

text \<open>
  The item built for every classified text, and the lists of \<^verbatim>\<open>stats\<close> with the week
  counter of the run. An item that has a URL is in \<^verbatim>\<open>urls\<close> and in the list of its class as
  one object, so \<^verbatim>\<open>urls\<close> holds it as it is when the call ends.
\<close>

datatype uncertain_kind = MaybeReading | Unknown

record item =
  display_text :: ustring
  item_text :: ustring
  item_start :: int
  item_end :: int
  week :: int
  was_split :: bool
  score :: int
  instr_score :: int
  semantic_class :: sem_label
  semantic_conf :: int
  reasons :: "reason list"
  has_url :: bool
  semantic_boosted :: bool
  classification :: "uncertain_kind option"

record run_state =
  headers :: "item list"
  readings :: "item list"
  instructions :: "item list"
  uncertain :: "item list"
  too_short :: "item list"
  urls :: "item list"
  split_readings :: "item list"
  current_week :: int

definition initial_state :: run_state where
  "initial_state = \<lparr> headers = [], readings = [], instructions = [], uncertain = [], too_short = [],
     urls = [], split_readings = [], current_week = 0 \<rparr>"

definition new_item :: "env \<Rightarrow> run_state \<Rightarrow> ustring \<Rightarrow> int \<Rightarrow> int \<Rightarrow> bool \<Rightarrow> item" where
  "new_item E st t a b is_split =
     \<lparr> display_text = display t, item_text = t, item_start = a, item_end = b,
       week = current_week st, was_split = is_split,
       score = fst (get_reading_score E t), instr_score = get_instruction_score E t,
       semantic_class = fst (classify_text_type E t), semantic_conf = snd (classify_text_type E t),
       reasons = snd (get_reading_score E t),
       has_url = (extract_url (udb E) t \<noteq> None), semantic_boosted = False, classification = None \<rparr>"

definition note_url :: "item \<Rightarrow> run_state \<Rightarrow> run_state" where
  "note_url it st = (if has_url it then st \<lparr> urls := urls st @ [it] \<rparr> else st)"

text \<open>The branches of \<^verbatim>\<open>classify_single_text\<close> that end the call.\<close>

definition as_too_short :: "item \<Rightarrow> run_state \<Rightarrow> run_state" where
  "as_too_short it st = (note_url it st) \<lparr> too_short := too_short st @ [it] \<rparr>"

text \<open>
  The header branch: \<^verbatim>\<open>if week:\<close> holds for a week number that is neither \<^verbatim>\<open>None\<close> nor
  \<^verbatim>\<open>0\<close>.
\<close>

definition as_header :: "int option \<Rightarrow> item \<Rightarrow> run_state \<Rightarrow> run_state" where
  "as_header w it st =
     (case w of
        Some n \<Rightarrow>
          (if n \<noteq> 0
           then (note_url (it \<lparr> week := n \<rparr>) st)
                  \<lparr> headers := headers st @ [it \<lparr> week := n \<rparr>], current_week := n \<rparr>
           else (note_url it st) \<lparr> headers := headers st @ [it] \<rparr>)
      | None \<Rightarrow> (note_url it st) \<lparr> headers := headers st @ [it] \<rparr>)"

definition as_instruction :: "item \<Rightarrow> run_state \<Rightarrow> run_state" where
  "as_instruction it st = (note_url it st) \<lparr> instructions := instructions st @ [it] \<rparr>"

definition as_reading :: "item \<Rightarrow> run_state \<Rightarrow> run_state" where
  "as_reading it st =
     (note_url (it \<lparr> week := current_week st \<rparr>) st)
       \<lparr> split_readings := (if was_split it then split_readings st @ [it \<lparr> week := current_week st \<rparr>]
                             else split_readings st),
         readings := readings st @ [it \<lparr> week := current_week st \<rparr>] \<rparr>"

definition as_boosted_reading :: "item \<Rightarrow> run_state \<Rightarrow> run_state" where
  "as_boosted_reading it st =
     (note_url (it \<lparr> week := current_week st, semantic_boosted := True \<rparr>) st)
       \<lparr> readings := readings st @ [it \<lparr> week := current_week st, semantic_boosted := True \<rparr>] \<rparr>"

definition as_uncertain :: "uncertain_kind \<Rightarrow> item \<Rightarrow> run_state \<Rightarrow> run_state" where
  "as_uncertain k it st =
     (note_url (it \<lparr> classification := Some k \<rparr>) st)
       \<lparr> uncertain := uncertain st @ [it \<lparr> classification := Some k \<rparr>] \<rparr>"

text \<open>
  When the text does not split, the label of the analyzer decides: with a weak positive
  score (\<open>bar_r = 60\<close>, \<open>bar_i = 60\<close>) or without (\<open>bar_r = 70\<close>, \<open>bar_i = 50\<close>).
\<close>

definition by_semantics :: "int \<Rightarrow> int \<Rightarrow> uncertain_kind \<Rightarrow> item \<Rightarrow> run_state \<Rightarrow> run_state" where
  "by_semantics bar_r bar_i k it st =
     (if semantic_class it = SemReading \<and> bar_r \<le> semantic_conf it then as_boosted_reading it st
      else if semantic_class it = SemInstruction \<and> bar_i \<le> semantic_conf it then as_instruction it st
      else as_uncertain k it st)"

text \<open>A loop over a list that stops at the first error.\<close>

fun each :: "('s \<Rightarrow> 'a \<Rightarrow> error + 's) \<Rightarrow> 's \<Rightarrow> 'a list \<Rightarrow> error + 's" where
  "each f s [] = Inr s"
| "each f s (x # xs) = (case f s x of Inl e \<Rightarrow> Inl e | Inr s' \<Rightarrow> each f s' xs)"

text \<open>
  \<^verbatim>\<open>classify_single_text\<close>. The first argument after the environment is the number of
  nested calls the interpreter still allows: the function calls itself on the segments of a
  text that splits, and Python raises \<^verbatim>\<open>RecursionError\<close> when the stack is full. In the
  header branch the week number is read before the item is appended, so an exception of
  \<^verbatim>\<open>is_week_header\<close> ends the call with nothing appended to \<^verbatim>\<open>headers\<close>.
\<close>

fun classify_single_text :: "env \<Rightarrow> nat \<Rightarrow> run_state \<Rightarrow> ustring \<Rightarrow> int \<Rightarrow> int \<Rightarrow> bool \<Rightarrow> error + run_state" where
  "classify_single_text E 0 st t a b is_split = Inl RecursionError"
| "classify_single_text E (Suc d) st t a b is_split =
     (if length t < 20 then Inr (as_too_short (new_item E st t a b is_split) st)
      else if is_header (udb E) t
        then (case is_week_header (udb E) t of
                Inl e \<Rightarrow> Inl e
              | Inr w \<Rightarrow> Inr (as_header w (new_item E st t a b is_split) st))
      else if is_instruction E t then Inr (as_instruction (new_item E st t a b is_split) st)
      else if 3 \<le> fst (get_reading_score E t) then Inr (as_reading (new_item E st t a b is_split) st)
      else if 1 < length (split_concatenated_readings (udb E) t)
        then each (\<lambda>s seg. classify_single_text E d s (strip seg) a b True)
               (note_url (new_item E st t a b is_split) st)
               (split_concatenated_readings (udb E) t)
      else if 1 \<le> fst (get_reading_score E t)
        then Inr (by_semantics 60 60 MaybeReading (new_item E st t a b is_split) st)
      else Inr (by_semantics 70 50 Unknown (new_item E st t a b is_split) st))"

text \<open>
  \<^verbatim>\<open>classify_line\<close>: a long unit with several author-year pairs, or more than two
  capitalized sentence starts, is split first.
\<close>

definition author_like :: "unicode_db \<Rightarrow> rx" where
  "author_like U = seqs [alts [Bol, seqs [Chr (cls U [CL 46, CL 59]), plus ws]], Grp 1 (seqs [Chr (cls U [CR 65 90]), plus (Chr (cls U [CR 97 122]))])]"

definition worth_splitting :: "unicode_db \<Rightarrow> ustring \<Rightarrow> bool" where
  "worth_splitting U t =
     (60 < length t
      \<and> (1 < length (extract_author_year_pairs U t) \<or> 2 < length (finditer (author_like U) t))
      \<and> 1 < length (split_concatenated_readings U t))"

definition classify_line :: "env \<Rightarrow> nat \<Rightarrow> run_state \<Rightarrow> unit \<Rightarrow> error + run_state" where
  "classify_line E d st u =
     (if worth_splitting (udb E) (full_text u)
      then each (\<lambda>s seg. classify_single_text E d s (strip seg) (ustart u) (uend u) True) st
             (split_concatenated_readings (udb E) (full_text u))
      else classify_single_text E d st (full_text u) (ustart u) (uend u) False)"

text \<open>
  The run of \<^verbatim>\<open>clean_syllabus\<close> on the lines collected from the document: merge, then
  classify every unit in order, from the initial state.
\<close>

definition classify_units :: "env \<Rightarrow> nat \<Rightarrow> run_state \<Rightarrow> unit list \<Rightarrow> error + run_state" where
  "classify_units E d st us = each (classify_line E d) st us"

definition clean_syllabus :: "env \<Rightarrow> nat \<Rightarrow> line list \<Rightarrow> error + run_state" where
  "clean_syllabus E d raw_lines =
     (case merge_fragmented_lines E raw_lines of
        Inl e \<Rightarrow> Inl e
      | Inr us \<Rightarrow> classify_units E d initial_state us)"

section \<open>Stating merge completeness\<close>

text \<open>
  The texts the merger reads, in order: the stripped text of every line, where it is not
  empty. \<open>join_sp\<close> joins the texts of one unit with the single spaces of the merge.
\<close>

definition pieces :: "line list \<Rightarrow> ustring list" where
  "pieces lines = filter (\<lambda>s. s \<noteq> []) (map (\<lambda>l. strip (ltext l)) lines)"

fun join_sp :: "ustring list \<Rightarrow> ustring" where
  "join_sp [] = []"
| "join_sp [x] = x"
| "join_sp (x # y # ys) = x @ [32] @ join_sp (y # ys)"

text \<open>The two fragments of one citation that the merger is meant to rejoin.\<close>

definition smith1 :: ustring where "smith1 = ustr ''Smith, J. (2020). Gender and''"
definition smith2 :: ustring where "smith2 = ustr ''Power. Oxford University Press.''"

section \<open>Stating the shape of a split\<close>



definition hyphen_line :: ustring where "hyphen_line = ustr ''xy- z and more words go here''"


section \<open>A syllabus with a week 0\<close>

text \<open>
  Three lines of a document, in order: the header of week 5, the header of week 0, and a
  reading under it. None continues the line before it.
\<close>

definition week5_line :: ustring where "week5_line = ustr ''Week 5: Gender and power.''"

definition week0_line :: ustring where "week0_line = ustr ''Week 0: Course logistics.''"

definition smith_line :: ustring where "smith_line = ustr ''Smith (2020) Gender and Power.''"

definition week0_lines :: "line list" where
  "week0_lines =
     [\<lparr> ltext = week5_line, lstart = 1, lend = 27 \<rparr>,
      \<lparr> ltext = week0_line, lstart = 27, lend = 53 \<rparr>,
      \<lparr> ltext = smith_line, lstart = 53, lend = 84 \<rparr>]"

section \<open>A week header with a long number\<close>

text \<open>The line \<^verbatim>\<open>Week\<close>, a space, and the digit \<^verbatim>\<open>1\<close> repeated \<open>n\<close> times.\<close>

definition week_digits :: "nat \<Rightarrow> ustring" where
  "week_digits n = ustr ''Week '' @ replicate n 49"

section \<open>Evaluation\<close>

text \<open>The equations that evaluate the functions above on a concrete string.\<close>

lemmas text_ev = ustr_def rng_def one_of_def isspace_def lstrip_def rstrip_def strip_def replace_cp_def
  ascii_upper_def ascii_lower_def ascii_digit_def is_digit_def is_word_def ascii_db_def

lemmas rx_ev = match_at_def offsets_def re_match_def re_search_def matches_def found_def
  substr_def group_def finditer_def re_sub_def re_split_def star_def plus_def opt_def cp_def lit_def

lemmas cls_ev = cls_def ncls_def swapcase_def case_variants_def ci_def liti_def dot_def ws_def dg_def
  wd_def wb_def lower_cp_def lower_def cp_isupper_def cp_islower_def cp_istitle_def isupper_def
  startswith_def endswith_def contains_def digit_value_def max_str_digits_def py_int_def plain_env_def

lemmas hdr_ev = header_keywords_def course_code_def term_in_brackets_def term_in_parens_def
  week_start_def session_start_def month_day_def slash_date_def weekday_start_def roman_numeral_def
  header_lower_def header_clean_def keyword_header_def is_header_def week_number_def
  is_week_header_def bullets_def strip_bullets_def

lemmas instr_ev = description_patterns_def is_course_description_def table_score_def
  instr_strong_starters_def instr_medium_patterns_def instr_weak_patterns_def
  instr_negative_patterns_def instr_semantic_score_def get_instruction_score_def

lemmas reading_ev = author_patterns_def looks_like_author_def table_score_def
  reading_strong_patterns_def reading_medium_patterns_def reading_negative_patterns_def
  reading_semantic_def author_bonus_def reading_score_clean_def get_reading_score_def


lemmas split_points_ev = split_point_patterns_def candidates_def find_split_points_def

lemmas merge_ev = last_token_def incomplete_endings_def ends_mid_word_def ends_capitalized_def
  ends_capitalized_after_period_def ends_terminal_def quote_char_def reading_like_def
  incomplete_semantic_def incomplete_rules_def is_incomplete_line_def journal_starts_def
  publisher_starts_def volume_start_def number_start_def issue_start_def editor_start_def
  conjunction_start_def digits_punct_only_def page_range_only_def author_start_def
  capitalized_start_def author_year_start_def starts_with_person_def continuation_rules_def
  is_continuation_line_def new_citation_def capitalized_then_year_def volume_or_digit_def
  citation_ending_def terminal_char_def next_starts_person_def merge_semantic_def
  merge_rules_def should_merge_lines_def display_def new_unit_def extend_unit_def
  merge_fragmented_lines_def year_in_parens_def looks_like_author_def author_patterns_def

lemmas state_ev = initial_state_def new_item_def note_url_def as_too_short_def as_header_def
  as_instruction_def as_reading_def as_boosted_reading_def as_uncertain_def by_semantics_def

section \<open>Facts about stripping\<close>

text \<open>
  A text that starts and ends with a character that is not whitespace is its own stripped
  text, and stripping twice is stripping once. The normalizer ends with \<^verbatim>\<open>strip()\<close>, so a
  normalized text is stripped.
\<close>

lemma lstrip_id: "s = [] \<or> \<not> isspace (hd s) \<Longrightarrow> lstrip s = s"
  by (cases s) (auto simp: lstrip_def)

lemma rstrip_id: "s = [] \<or> \<not> isspace (last s) \<Longrightarrow> rstrip s = s"
  by (cases s rule: rev_cases) (auto simp: rstrip_def)

lemma rstrip_last: "rstrip s = [] \<or> \<not> isspace (last (rstrip s))"
proof (cases "dropWhile isspace (rev s)")
  case Nil
  then show ?thesis by (simp add: rstrip_def)
next
  case (Cons x xs)
  then have "\<not> isspace x" by (metis hd_dropWhile list.sel(1) list.distinct(1))
  with Cons show ?thesis by (simp add: rstrip_def)
qed

lemma lstrip_hd: "lstrip s = [] \<or> \<not> isspace (hd (lstrip s))"
  unfolding lstrip_def by (metis hd_dropWhile)

lemma rstrip_hd: "rstrip s \<noteq> [] \<Longrightarrow> hd (rstrip s) = hd s"
proof (induction s rule: rev_induct)
  case Nil
  then show ?case by (simp add: rstrip_def)
next
  case (snoc x xs)
  show ?case
  proof (cases "isspace x")
    case True
    with snoc show ?thesis by (cases xs) (auto simp: rstrip_def)
  next
    case False
    then show ?thesis by (simp add: rstrip_def)
  qed
qed

lemma strip_strip: "strip (strip s) = strip s"
proof -
  let ?y = "lstrip s"
  have "rstrip ?y = [] \<or> \<not> isspace (hd (rstrip ?y))"
  proof (cases "rstrip ?y = []")
    case True
    then show ?thesis by simp
  next
    case False
    then have "?y \<noteq> []" by (auto simp: rstrip_def)
    with lstrip_hd[of s] rstrip_hd[OF False] show ?thesis by simp
  qed
  then have "lstrip (rstrip ?y) = rstrip ?y" by (intro lstrip_id) auto
  moreover have "rstrip (rstrip ?y) = rstrip ?y" using rstrip_last[of ?y] by (intro rstrip_id) auto
  ultimately show ?thesis by (simp add: strip_def)
qed

lemma strip_id:
  assumes "s \<noteq> []" and "\<not> isspace (hd s)" and "\<not> isspace (last s)"
  shows "strip s = s"
proof -
  from assms(1,2) have l: "lstrip s = s" by (cases s) (simp_all add: lstrip_def)
  from assms(1) obtain xs x where s: "s = xs @ [x]" by (cases s rule: rev_cases) auto
  with assms(3) have "rstrip s = s" by (simp add: rstrip_def)
  with l show ?thesis by (simp add: strip_def)
qed

lemma normalize_stripped: "strip (normalize_pdf_text U x) = normalize_pdf_text U x"
  by (simp add: normalize_pdf_text_def strip_strip)

text \<open>
  A text is its stripped text between two runs of whitespace; whitespace around a text does
  not change its stripped text; and stripping keeps a last character that is not whitespace.
\<close>

lemma rstrip_keeps:
  assumes "ys \<noteq> []" and "\<not> isspace (last ys)"
  shows "\<exists>r'. rstrip (ys @ r) = ys @ r'"
proof (cases "\<forall>x\<in>set (rev r). isspace x")
  case True
  from assms obtain zs z where ys: "ys = zs @ [z]" "\<not> isspace z" by (cases ys rule: rev_cases) auto
  from True have "dropWhile isspace (rev r @ rev ys) = dropWhile isspace (rev ys)"
    by (intro dropWhile_append2) auto
  then have "rstrip (ys @ r) = ys @ []" using ys by (simp add: rstrip_def)
  then show ?thesis by blast
next
  case False
  then obtain x where "x \<in> set (rev r)" "\<not> isspace x" by blast
  then have "dropWhile isspace (rev r @ rev ys) = dropWhile isspace (rev r) @ rev ys"
    by (rule dropWhile_append1)
  then have "rstrip (ys @ r) = ys @ rev (dropWhile isspace (rev r))" by (simp add: rstrip_def)
  then show ?thesis by blast
qed

lemma strip_decomp:
  obtains w1 w2 where "t = w1 @ strip t @ w2" "\<forall>c\<in>set w1. isspace c" "\<forall>c\<in>set w2. isspace c"
proof -
  let ?y = "dropWhile isspace t"
  have "rev (takeWhile isspace (rev ?y) @ dropWhile isspace (rev ?y)) = rev (rev ?y)"
    by (simp only: takeWhile_dropWhile_id)
  then have y: "?y = rev (dropWhile isspace (rev ?y)) @ rev (takeWhile isspace (rev ?y))"
    by (simp only: rev_append rev_rev_ident)
  have "t = takeWhile isspace t @ ?y" by simp
  with y have "t = takeWhile isspace t @ strip t @ rev (takeWhile isspace (rev ?y))"
    by (simp add: strip_def lstrip_def rstrip_def)
  moreover have "\<forall>c\<in>set (takeWhile isspace t). isspace c" by (auto dest: set_takeWhileD)
  moreover have "\<forall>c\<in>set (rev (takeWhile isspace (rev ?y))). isspace c" by (auto dest: set_takeWhileD)
  ultimately show ?thesis by (rule that)
qed

lemma strip_pad:
  assumes "\<forall>c\<in>set w1. isspace c" and "\<forall>c\<in>set w2. isspace c"
  shows "strip (w1 @ x @ w2) = strip x"
proof -
  from assms(1) have l: "lstrip (w1 @ x @ w2) = lstrip (x @ w2)"
    unfolding lstrip_def by (intro dropWhile_append2) auto
  have "rstrip (lstrip (x @ w2)) = rstrip (lstrip x)"
  proof (cases "\<forall>c\<in>set x. isspace c")
    case True
    with assms(2) have "lstrip (x @ w2) = []" "lstrip x = []" by (auto simp: lstrip_def)
    then show ?thesis by simp
  next
    case False
    then obtain c where "c \<in> set x" "\<not> isspace c" by blast
    then have "lstrip (x @ w2) = lstrip x @ w2" unfolding lstrip_def by (rule dropWhile_append1)
    moreover from assms(2) have "dropWhile isspace (rev w2 @ rev (lstrip x)) = dropWhile isspace (rev (lstrip x))"
      by (intro dropWhile_append2) auto
    ultimately show ?thesis by (simp add: rstrip_def)
  qed
  with l show ?thesis by (simp add: strip_def)
qed

lemma length_strip: "length (strip t) \<le> length t"
proof -
  obtain w1 w2 where "t = w1 @ strip t @ w2" by (rule strip_decomp)
  then have "length t = length w1 + length (strip t) + length w2" by (metis length_append add.assoc)
  then show ?thesis by simp
qed

lemma endswith_one: "endswith s [c] \<longleftrightarrow> s \<noteq> [] \<and> last s = c"
proof (cases s rule: rev_cases)
  case Nil
  then show ?thesis by (simp add: endswith_def)
next
  case (snoc xs x)
  then show ?thesis by (auto simp: endswith_def)
qed

lemma endswith_strip:
  assumes "endswith t [c]" and "\<not> isspace c"
  shows "endswith (strip t) [c]"
proof -
  obtain w1 w2 where d: "t = w1 @ strip t @ w2" "\<forall>c\<in>set w1. isspace c" "\<forall>c\<in>set w2. isspace c"
    by (rule strip_decomp)
  from assms(1) have t: "t \<noteq> []" "last t = c" by (simp_all add: endswith_one)
  have w2: "w2 = []"
  proof (rule ccontr)
    assume "w2 \<noteq> []"
    with d(1) have "last t = last w2" by (metis last_append append_is_Nil_conv)
    with \<open>w2 \<noteq> []\<close> d(3) t(2) assms(2) show False by (metis last_in_set)
  qed
  have "strip t \<noteq> []"
  proof
    assume "strip t = []"
    with d(1) w2 have "t = w1" by simp
    with t d(2) assms(2) show False by (metis last_in_set)
  qed
  moreover from this d(1) w2 have "last (strip t) = last t" by (metis append_Nil2 last_append)
  ultimately show ?thesis using t by (simp add: endswith_one)
qed

section \<open>Facts about lists and lowercasing\<close>

lemma in_set_not_nil: "x \<in> set xs \<Longrightarrow> xs \<noteq> []"
  by auto

lemma drop_split: "i \<le> j \<Longrightarrow> drop i s = take (j - i) (drop i s) @ drop j s"
  by (metis append_take_drop_id drop_drop le_add_diff_inverse2)

lemma nth_mid:
  assumes "length xs \<le> x" and "x < length xs + length ys"
  shows "(xs @ ys @ zs) ! x = ys ! (x - length xs)"
proof -
  from assms have "\<not> x < length xs" "x - length xs < length ys" by simp_all
  then show ?thesis by (simp add: nth_append)
qed

lemma run_list:
  assumes "j \<le> length s" and "\<forall>x. i \<le> x \<and> x < j \<longrightarrow> P (s ! x)"
  shows "\<forall>c\<in>set (take (j - i) (drop i s)). P c"
proof
  fix c assume "c \<in> set (take (j - i) (drop i s))"
  then obtain x where x: "x < length (take (j - i) (drop i s))" "c = take (j - i) (drop i s) ! x"
    by (auto simp: in_set_conv_nth)
  with assms(1) have "x < j - i" "c = s ! (i + x)" by auto
  with assms(2) show "P c" by simp
qed

lemma set_replace_cp: "set (replace_cp a [] s) = set s - {a}"
  by (induction s) (auto simp: replace_cp_def)

lemma lower_fixed: "\<forall>c\<in>set xs. lower_cp U c = [c] \<Longrightarrow> lower U xs = xs"
  by (induction xs) (simp_all add: lower_def)

lemma lower_append: "lower U (xs @ ys) = lower U xs @ lower U ys"
  by (simp add: lower_def)

section \<open>Facts about the matcher\<close>

text \<open>
  A greedy repetition of a one-character class over a run of such characters that reaches
  the end of the string takes the whole run first; at a character outside the class it
  takes nothing.
\<close>

lemma rep_iter_run:
  assumes "\<forall>x. i \<le> x \<and> x < length s \<longrightarrow> P (s ! x)" and "k = length s - i" and "i \<le> length s"
    and "m \<le> k"
  shows "\<exists>rest. rep_iter (\<lambda>j c'. rmatch (Chr P) s j c') m None k i c = (length s, c) # rest"
  using assms
proof (induction k arbitrary: i m)
  case 0
  then show ?case by simp
next
  case (Suc k)
  from Suc.prems have i: "i < length s" "P (s ! i)" by auto
  from Suc.prems have "\<exists>rest. rep_iter (\<lambda>j c'. rmatch (Chr P) s j c') (m - 1) None k (Suc i) c = (length s, c) # rest"
    by (intro Suc.IH) auto
  then obtain rest where "rep_iter (\<lambda>j c'. rmatch (Chr P) s j c') (m - 1) None k (Suc i) c = (length s, c) # rest"
    by blast
  with i show ?case by simp
qed

lemma rep_run:
  assumes "\<forall>x. i \<le> x \<and> x < length s \<longrightarrow> P (s ! x)" and "i \<le> length s" and "m \<le> length s - i"
  shows "\<exists>rest. rmatch (Rep m None (Chr P)) s i c = (length s, c) # rest"
  unfolding rmatch.simps(5) using assms by (intro rep_iter_run) auto

lemma star_stop: "\<not> (i < length s \<and> P (s ! i)) \<Longrightarrow> rmatch (star (Chr P)) s i c = [(i, c)]"
  by (cases "length s - i") (simp_all add: star_def)

lemma plus_stop: "\<not> (i < length s \<and> P (s ! i)) \<Longrightarrow> rmatch (plus (Chr P)) s i c = []"
  by (cases "length s - i") (simp_all add: plus_def)

lemma plus_one:
  assumes "i < length s" "P (s ! i)" "\<not> (Suc i < length s \<and> P (s ! Suc i))"
  shows "rmatch (plus (Chr P)) s i c = [(Suc i, c)]"
proof -
  from assms(1) obtain k where k: "length s - i = Suc k" by (cases "length s - i") auto
  have f: "rmatch (Chr P) s i c = [(Suc i, c)]" using assms(1,2) by simp
  have h: "rep_iter (rmatch (Chr P) s) 0 None k (Suc i) c = [(Suc i, c)]"
    using assms(3) by (cases k) auto
  show ?thesis by (simp add: plus_def k f h del: rmatch.simps(2))
qed

lemma star_one:
  assumes "i < length s" "P (s ! i)" "\<not> (Suc i < length s \<and> P (s ! Suc i))"
  shows "rmatch (star (Chr P)) s i c = [(Suc i, c), (i, c)]"
proof -
  from assms(1) obtain k where k: "length s - i = Suc k" by (cases "length s - i") auto
  have f: "rmatch (Chr P) s i c = [(Suc i, c)]" using assms(1,2) by simp
  have h: "rep_iter (rmatch (Chr P) s) 0 None k (Suc i) c = [(Suc i, c)]"
    using assms(3) by (cases k) auto
  show ?thesis by (simp add: star_def k f h del: rmatch.simps(2))
qed

text \<open>A pattern that matches nowhere is found nowhere.\<close>

lemma match_at_none: "rmatch r s i [] = [] \<Longrightarrow> match_at r s i adv = None"
  by (simp add: match_at_def)

lemma scan_none: "\<forall>i\<in>set is. p \<le> i \<longrightarrow> match_at r s i False = None \<Longrightarrow> scan r s p is = []"
  by (induction "is") auto

lemma finditer_none: "\<forall>i. match_at r s i False = None \<Longrightarrow> finditer r s = []"
  by (simp add: finditer_def scan_none)

lemma bol_later: "0 < i \<Longrightarrow> rmatch (Seq Bol r) s i c = []"
  by simp

text \<open>A match never ends before it starts.\<close>

lemma rep_iter_ge:
  assumes f: "\<And>i c j c'. (j, c') \<in> set (f i c) \<Longrightarrow> i \<le> j"
  shows "(j, c') \<in> set (rep_iter f m n k i c) \<Longrightarrow> i \<le> j"
proof (induction k arbitrary: m n i c)
  case 0
  then show ?case by (auto split: if_splits)
next
  case (Suc k)
  show ?case
  proof (cases "(j, c') = (i, c)")
    case True
    then show ?thesis by simp
  next
    case False
    with Suc.prems obtain a b where ab: "(a, b) \<in> set (f i c)" "i < a"
      "(j, c') \<in> set (rep_iter f (m - 1) (map_option (\<lambda>x. x - 1) n) k a b)"
      by (auto split: if_splits)
    from Suc.IH[OF ab(3)] ab(2) show ?thesis by simp
  qed
qed

lemma rmatch_ge: "(j, c') \<in> set (rmatch r s i c) \<Longrightarrow> i \<le> j"
proof (induction r arbitrary: i c j c')
  case (Seq a b)
  from Seq.prems obtain k d where "(k, d) \<in> set (rmatch a s i c)" "(j, c') \<in> set (rmatch b s k d)"
    by auto
  then show ?case using Seq.IH(1) Seq.IH(2) by (meson le_trans)
next
  case (Rep m n a)
  have "\<And>i c j c'. (j, c') \<in> set (rmatch a s i c) \<Longrightarrow> i \<le> j" using Rep.IH by blast
  from rep_iter_ge[of "\<lambda>j c'. rmatch a s j c'", OF this] Rep.prems show ?case by simp
next
  case (Ahead a)
  then show ?case by (auto split: list.splits)
qed (auto split: if_splits)

lemma match_at_mem: "match_at r s i adv = Some (j, c) \<Longrightarrow> (j, c) \<in> set (rmatch r s i [])"
proof -
  assume "match_at r s i adv = Some (j, c)"
  then obtain xs where "filter (\<lambda>(j, c). \<not> adv \<or> j \<noteq> i) (rmatch r s i []) = (j, c) # xs"
    by (auto simp: match_at_def split: list.splits)
  then have "(j, c) \<in> set (filter (\<lambda>(j, c). \<not> adv \<or> j \<noteq> i) (rmatch r s i []))" by simp
  then show ?thesis by simp
qed

lemma seq_mem:
  "(j, c') \<in> set (rmatch (Seq a b) s i c)
   \<Longrightarrow> \<exists>k d. (k, d) \<in> set (rmatch a s i c) \<and> (j, c') \<in> set (rmatch b s k d)"
  by auto

lemma grp_mem: "(j, c') \<in> set (rmatch (Grp g a) s i c) \<Longrightarrow> \<exists>d. (j, d) \<in> set (rmatch a s i c)"
  by auto

lemma chr_mem: "(j, c') \<in> set (rmatch (Chr P) s i c) \<Longrightarrow> j = Suc i"
  by (auto split: if_splits)

lemma grp_chr_advances:
  assumes "(j, c') \<in> set (rmatch (Seq (Grp g (Seq (Chr P) X)) Y) s i c)"
  shows "i < j"
proof -
  from seq_mem[OF assms] obtain k d where
    1: "(k, d) \<in> set (rmatch (Grp g (Seq (Chr P) X)) s i c)" and 2: "(j, c') \<in> set (rmatch Y s k d)"
    by blast
  from grp_mem[OF 1] obtain d0 where "(k, d0) \<in> set (rmatch (Seq (Chr P) X) s i c)" by blast
  from seq_mem[OF this] obtain k2 d2 where
    3: "(k2, d2) \<in> set (rmatch (Chr P) s i c)" and 4: "(k, d0) \<in> set (rmatch X s k2 d2)"
    by blast
  from chr_mem[OF 3] rmatch_ge[OF 4] rmatch_ge[OF 2] show ?thesis by simp
qed

lemma offsets_from_set: "set (offsets_from i s) = {i..i + length s}"
  by (induction s arbitrary: i) auto

text \<open>
  When a pattern matches at offset 0 only, a scan finds at most two matches, and at most one
  when the match at 0 cannot be empty.
\<close>

lemma finditer_first_only:
  assumes "\<And>i. 0 < i \<Longrightarrow> match_at r s i False = None"
  shows "length (finditer r s) \<le> 2"
    and "(\<And>j c. (j, c) \<in> set (rmatch r s 0 []) \<Longrightarrow> 0 < j) \<Longrightarrow> length (finditer r s) \<le> 1"
proof -
  obtain "is" where o: "offsets s = 0 # is" "\<forall>i\<in>set is. 0 < i"
    by (cases s) (auto simp: offsets_def offsets_from_set)
  with assms have n: "scan r s p is = []" for p by (intro scan_none) auto
  from o n show "length (finditer r s) \<le> 2"
    by (auto simp: finditer_def split: option.splits)
  assume "\<And>j c. (j, c) \<in> set (rmatch r s 0 []) \<Longrightarrow> 0 < j"
  then have "match_at r s 0 False = Some (j, c) \<Longrightarrow> 0 < j" for j c
    using match_at_mem by blast
  with o n show "length (finditer r s) \<le> 1"
    by (auto simp: finditer_def split: option.splits)
qed

text \<open>
  What a match of a repeated one-character class says about the text, and the matches that a
  run of such characters gives.
\<close>

lemma matches_iff: "matches r s \<longleftrightarrow> rmatch r s 0 [] \<noteq> []"
  by (auto simp: matches_def re_match_def match_at_def split: list.splits)

lemma seq_in:
  "(k, d) \<in> set (rmatch a s i c) \<Longrightarrow> (j, c') \<in> set (rmatch b s k d) \<Longrightarrow> (j, c') \<in> set (rmatch (Seq a b) s i c)"
  by force

lemma chr_match: "(j, c') \<in> set (rmatch (Chr P) s i c) \<Longrightarrow> j = Suc i \<and> c' = c \<and> i < length s \<and> P (s ! i)"
  by (auto split: if_splits)

lemma rep_iter_chr_mem:
  "(j, c') \<in> set (rep_iter (rmatch (Chr P) s) m n k i c)
   \<Longrightarrow> i \<le> j \<and> c' = c \<and> (\<forall>x. i \<le> x \<and> x < j \<longrightarrow> x < length s \<and> P (s ! x)) \<and> m \<le> j - i"
proof (induction k arbitrary: m n i)
  case 0
  then show ?case by (auto split: if_splits)
next
  case (Suc k)
  show ?case
  proof (cases "(j, c') = (i, c) \<and> m = 0")
    case True
    then show ?thesis by auto
  next
    case False
    with Suc.prems obtain a b where ab: "(a, b) \<in> set (rmatch (Chr P) s i c)" "i < a"
      "(j, c') \<in> set (rep_iter (rmatch (Chr P) s) (m - 1) (map_option (\<lambda>x. x - 1) n) k a b)"
      by (auto split: if_splits simp del: rmatch.simps)
    from chr_match[OF ab(1)] have a: "a = Suc i" "b = c" "i < length s" "P (s ! i)" by simp_all
    from Suc.IH[OF ab(3)[unfolded a(1,2)]]
    have ih: "Suc i \<le> j" "c' = c" "\<forall>x. Suc i \<le> x \<and> x < j \<longrightarrow> x < length s \<and> P (s ! x)" "m - 1 \<le> j - Suc i"
      by simp_all
    have "\<forall>x. i \<le> x \<and> x < j \<longrightarrow> x < length s \<and> P (s ! x)"
    proof (intro allI impI)
      fix x assume x: "i \<le> x \<and> x < j"
      show "x < length s \<and> P (s ! x)"
      proof (cases "x = i")
        case True
        with a show ?thesis by simp
      next
        case False
        with x have "Suc i \<le> x \<and> x < j" by simp
        with ih(3) show ?thesis by blast
      qed
    qed
    with ih show ?thesis by auto
  qed
qed

lemma rep_mem:
  "(j, c') \<in> set (rmatch (Rep m n (Chr P)) s i c)
   \<Longrightarrow> i \<le> j \<and> c' = c \<and> (\<forall>x. i \<le> x \<and> x < j \<longrightarrow> x < length s \<and> P (s ! x)) \<and> m \<le> j - i"
  unfolding rmatch.simps(5) by (rule rep_iter_chr_mem)

lemma rep_iter_chr_in:
  assumes "\<forall>x. i \<le> x \<and> x < j \<longrightarrow> P (s ! x)" and "i \<le> j" and "j \<le> length s" and "m \<le> j - i"
    and "length s - i \<le> k"
  shows "(j, c) \<in> set (rep_iter (rmatch (Chr P) s) m None k i c)"
  using assms
proof (induction k arbitrary: i m)
  case 0
  then have "j = i" "m = 0" by simp_all
  then show ?case by simp
next
  case (Suc k)
  show ?case
  proof (cases "j = i")
    case True
    with Suc.prems have "m = 0" by simp
    with True show ?thesis by simp
  next
    case False
    with Suc.prems have i: "i < j" "i < length s" "P (s ! i)" by auto
    then have f: "rmatch (Chr P) s i c = [(Suc i, c)]" by simp
    have "(j, c) \<in> set (rep_iter (rmatch (Chr P) s) (m - 1) None k (Suc i) c)"
      using Suc.prems i by (intro Suc.IH) auto
    then show ?thesis by (simp add: f del: rmatch.simps)
  qed
qed

lemma rep_in:
  assumes "\<forall>x. i \<le> x \<and> x < j \<longrightarrow> P (s ! x)" and "i \<le> j" and "j \<le> length s" and "m \<le> j - i"
  shows "(j, c) \<in> set (rmatch (Rep m None (Chr P)) s i c)"
  unfolding rmatch.simps(5) using assms by (intro rep_iter_chr_in) auto

section \<open>Properties of the normalizer\<close>

text \<open>
  C1 (normalization is idempotent). The hyphenation pattern consumes the word character after
  the whitespace, so of two line-break hyphens that share a one-letter word only the first is
  rejoined: \<^verbatim>\<open>"a- b- c"\<close> is normalized to \<^verbatim>\<open>"ab- c"\<close>, and that to \<^verbatim>\<open>"abc"\<close>.
  One application does not reach the fixed point.
\<close>

theorem normalize_twice_differs:
  "normalize_pdf_text ascii_db (ustr ''a- b- c'') = ustr ''ab- c''
   \<and> normalize_pdf_text ascii_db (ustr ''ab- c'') = ustr ''abc''
   \<and> normalize_pdf_text ascii_db (normalize_pdf_text ascii_db (ustr ''a- b- c''))
       \<noteq> normalize_pdf_text ascii_db (ustr ''a- b- c'')"
proof -
  have a: "normalize_pdf_text ascii_db (ustr ''a- b- c'') = ustr ''ab- c''"
    by (simp add: normalize_pdf_text_def pdf_artifacts_def hyphen_break_def text_ev rx_ev)
  have b: "normalize_pdf_text ascii_db (ustr ''ab- c'') = ustr ''abc''"
    by (simp add: normalize_pdf_text_def pdf_artifacts_def hyphen_break_def text_ev rx_ev)
  have "ustr ''abc'' \<noteq> ustr ''ab- c''"
    by (simp add: ustr_def)
  with a b show ?thesis by simp
qed

section \<open>Properties of the classifier\<close>

text \<open>
  C5 (too-short rule). A text of fewer than 20 characters is put on the \<^verbatim>\<open>too_short\<close> list
  and on no other, and the week counter is left alone, whatever the header test and the
  scores say about it. The call must be allowed one stack frame.
\<close>

theorem too_short_rule:
  assumes "length t < 20" and "0 < n"
  shows "\<exists>st'. classify_single_text E n st t a b is_split = Inr st'
           \<and> too_short st' = too_short st @ [new_item E st t a b is_split]
           \<and> headers st' = headers st \<and> readings st' = readings st
           \<and> instructions st' = instructions st \<and> uncertain st' = uncertain st
           \<and> split_readings st' = split_readings st \<and> current_week st' = current_week st"
proof -
  from assms(2) obtain d where n: "n = Suc d" by (cases n) auto
  with assms(1) have "classify_single_text E n st t a b is_split
      = Inr (as_too_short (new_item E st t a b is_split) st)"
    by simp
  then show ?thesis by (simp add: as_too_short_def note_url_def)
qed

lemma week5_header: "is_header ascii_db (ustr ''Week 5'')"
  by (simp add: hdr_ev cls_ev text_ev rx_ev)

text \<open>
  The rule at \<^verbatim>\<open>"Short txt"\<close>, 9 characters, and at \<^verbatim>\<open>"Week 5"\<close>, which the header test
  accepts: both are too short, and the second leaves the week counter at 0.
\<close>

theorem too_short_rule_witness:
  "length (ustr ''Short txt'') = 9
   \<and> (\<exists>st'. classify_single_text plain_env 1 initial_state (ustr ''Short txt'') 0 9 False = Inr st'
          \<and> map item_text (too_short st') = [ustr ''Short txt'']
          \<and> headers st' = [] \<and> readings st' = [] \<and> instructions st' = [] \<and> uncertain st' = [])
   \<and> is_header (udb plain_env) (ustr ''Week 5'')
   \<and> (\<exists>st'. classify_single_text plain_env 1 initial_state (ustr ''Week 5'') 0 6 False = Inr st'
          \<and> map item_text (too_short st') = [ustr ''Week 5''] \<and> headers st' = []
          \<and> current_week st' = 0)"
proof -
  have l: "length (ustr ''Short txt'') = 9" "length (ustr ''Week 5'') < 20" by (simp_all add: ustr_def)
  have h: "is_header (udb plain_env) (ustr ''Week 5'')" using week5_header by (simp add: plain_env_def)
  from too_short_rule[of "ustr ''Short txt''" 1 plain_env initial_state 0 9 False] l
  obtain s1 where s1: "classify_single_text plain_env 1 initial_state (ustr ''Short txt'') 0 9 False = Inr s1"
    "too_short s1 = too_short initial_state @ [new_item plain_env initial_state (ustr ''Short txt'') 0 9 False]"
    "headers s1 = headers initial_state" "readings s1 = readings initial_state"
    "instructions s1 = instructions initial_state" "uncertain s1 = uncertain initial_state"
    by auto
  from too_short_rule[of "ustr ''Week 5''" 1 plain_env initial_state 0 6 False] l
  obtain s2 where s2: "classify_single_text plain_env 1 initial_state (ustr ''Week 5'') 0 6 False = Inr s2"
    "too_short s2 = too_short initial_state @ [new_item plain_env initial_state (ustr ''Week 5'') 0 6 False]"
    "headers s2 = headers initial_state" "current_week s2 = current_week initial_state"
    by auto
  from s1 have a: "\<exists>st'. classify_single_text plain_env 1 initial_state (ustr ''Short txt'') 0 9 False = Inr st'
          \<and> map item_text (too_short st') = [ustr ''Short txt'']
          \<and> headers st' = [] \<and> readings st' = [] \<and> instructions st' = [] \<and> uncertain st' = []"
    by (simp add: initial_state_def new_item_def)
  from s2 have b: "\<exists>st'. classify_single_text plain_env 1 initial_state (ustr ''Week 5'') 0 6 False = Inr st'
          \<and> map item_text (too_short st') = [ustr ''Week 5''] \<and> headers st' = []
          \<and> current_week st' = 0"
    by (simp add: initial_state_def new_item_def)
  from l(1) a h b show ?thesis by blast
qed

text \<open>
  The header branch. A text of at least 20 characters that passes the header test goes
  through \<^verbatim>\<open>is_week_header\<close> and then, when that returns, onto the \<^verbatim>\<open>headers\<close> list
  and no other, with its reading and instruction scores, whatever they are.
\<close>

lemma header_branch:
  assumes "20 \<le> length t" and "is_header (udb E) t"
  shows "classify_single_text E (Suc d) st t a b is_split
     = (case is_week_header (udb E) t of
          Inl e \<Rightarrow> Inl e
        | Inr w \<Rightarrow> Inr (as_header w (new_item E st t a b is_split) st))"
  using assms by simp

lemma header_listed:
  assumes "20 \<le> length t" and "is_header (udb E) t" and "is_week_header (udb E) t = Inr w"
  shows "\<exists>st' it. classify_single_text E (Suc d) st t a b is_split = Inr st'
           \<and> headers st' = headers st @ [it] \<and> item_text it = t
           \<and> score it = fst (get_reading_score E t) \<and> instr_score it = get_instruction_score E t
           \<and> readings st' = readings st \<and> instructions st' = instructions st
           \<and> uncertain st' = uncertain st \<and> too_short st' = too_short st"
proof -
  from assms have "classify_single_text E (Suc d) st t a b is_split
      = Inr (as_header w (new_item E st t a b is_split) st)"
    by simp
  then show ?thesis
    by (auto simp: as_header_def note_url_def new_item_def split: option.splits)
qed

subsection \<open>The line of a week header with more than 4300 digits\<close>

text \<open>
  On \<open>week_digits n\<close> the week pattern takes all \<open>n\<close> digits into its group, so for
  \<open>n\<close> above 4300 the conversion of the group raises; and the line is a header by the test
  \<^verbatim>\<open>^week\s*\d+\<close> on its lowercased text.
\<close>

lemma week_digits_length: "length (week_digits n) = 5 + n"
  by (simp add: week_digits_def ustr_def)

lemma week_digits_head:
  "week_digits n ! 0 = 87" "week_digits n ! Suc 0 = 101" "week_digits n ! Suc (Suc 0) = 101"
  "week_digits n ! Suc (Suc (Suc 0)) = 107" "week_digits n ! 4 = 32"
  by (simp_all add: week_digits_def ustr_def nth_append)

lemma week_digits_tail: "5 \<le> i \<Longrightarrow> i < 5 + n \<Longrightarrow> week_digits n ! i = 49"
  by (simp add: week_digits_def ustr_def nth_append)

lemma week_number_overflow:
  assumes "0 < n"
  shows "\<exists>rest. rmatch (week_number U) (week_digits n) 0 []
           = (length (week_digits n), [(1, 5, length (week_digits n))]) # rest"
proof -
  let ?s = "week_digits n"
  have a: "rmatch (star ws) ?s 0 [] = [(0, [])]"
    unfolding ws_def by (rule star_stop) (simp add: week_digits_head isspace_def rng_def)
  have b: "rmatch (liti U ''week'') ?s 0 [] = [(4, [])]"
    by (simp add: liti_def ustr_def ci_def case_variants_def swapcase_def ascii_upper_def ascii_lower_def
        rng_def week_digits_head week_digits_length)
  have c: "rmatch (plus ws) ?s 4 [] = [(5, [])]"
    unfolding ws_def using assms
    by (subst plus_one) (simp_all add: week_digits_head week_digits_length week_digits_tail isspace_def rng_def)
  have "\<exists>rest. rmatch (Rep 1 None (Chr (is_digit U))) ?s 5 [] = (length ?s, []) # rest"
    using assms
    by (intro rep_run) (auto simp: week_digits_length week_digits_tail is_digit_def ascii_digit_def rng_def)
  then obtain rest where d: "rmatch (plus (dg U)) ?s 5 [] = (length ?s, []) # rest"
    unfolding plus_def dg_def by blast
  show ?thesis
    by (simp add: week_number_def a b c d)
qed

lemma week_overflow_group:
  assumes "0 < n"
  shows "\<exists>j c. re_match (week_number U) (week_digits n) = Some (0, j, c)
           \<and> group (week_digits n) c 1 = replicate n 49"
proof -
  from week_number_overflow[OF assms, of U] obtain rest where
    "rmatch (week_number U) (week_digits n) 0 []
           = (length (week_digits n), [(1, 5, length (week_digits n))]) # rest" by blast
  then show ?thesis
    by (simp add: re_match_def match_at_def group_def substr_def week_digits_length)
       (simp add: week_digits_def ustr_def)
qed

lemma is_week_header_overflow:
  assumes "max_str_digits < n"
  shows "is_week_header U (week_digits n) = Inl ValueError"
proof -
  from assms have "0 < n" by simp
  from week_overflow_group[OF this, of U] assms show ?thesis
    by (auto simp: is_week_header_def py_int_def)
qed

lemma strip_bullets_id:
  assumes "\<not> (0 < length s \<and> cls U [CatD, CL 46, CL 41, CL 45, CL 8226, CL 42] (s ! 0))"
  shows "strip_bullets U s = s"
proof -
  have "rmatch (bullets U) s i [] = []" for i
  proof (cases "i = 0")
    case True
    have "rmatch (plus (Chr (cls U [CatD, CL 46, CL 41, CL 45, CL 8226, CL 42]))) s 0 [] = []"
      using assms by (intro plus_stop) simp
    with True show ?thesis by (simp add: bullets_def)
  next
    case False
    then show ?thesis by (simp add: bullets_def)
  qed
  then have "finditer (bullets U) s = []" by (intro finditer_none allI match_at_none)
  then show ?thesis by (simp add: strip_bullets_def re_sub_def)
qed

lemma lower_digits: "lower U (replicate n 49) = replicate n 49"
  by (induction n) (simp_all add: lower_def lower_cp_def ascii_upper_def rng_def)

lemma lower_week_digits: "lower U (week_digits n) = ustr ''week '' @ replicate n 49"
proof -
  have "lower U (week_digits n) = lower U (ustr ''Week '') @ lower U (replicate n 49)"
    by (simp add: week_digits_def lower_def)
  also have "lower U (ustr ''Week '') = ustr ''week ''"
    by (simp add: lower_def lower_cp_def ascii_upper_def rng_def ustr_def)
  finally show ?thesis by (simp add: lower_digits)
qed

lemma header_clean_week_digits:
  assumes "0 < n"
  shows "header_clean U (week_digits n) = ustr ''week '' @ replicate n 49"
proof -
  let ?s = "ustr ''week '' @ replicate n 49"
  from assms have "last ?s = 49" by simp
  then have "strip ?s = ?s"
    by (intro strip_id) (simp_all add: ustr_def isspace_def rng_def)
  moreover have "strip_bullets U ?s = ?s"
    by (intro strip_bullets_id)
       (simp add: ustr_def cls_def is_digit_def ascii_digit_def rng_def)
  ultimately show ?thesis by (simp add: header_clean_def header_lower_def lower_week_digits)
qed

lemma week_start_digits:
  assumes "0 < n"
  shows "matches (week_start U) (ustr ''week '' @ replicate n 49)"
proof -
  define s where "s = ustr ''week '' @ replicate n 49"
  have len: "length s = 5 + n" by (simp add: s_def ustr_def)
  have hd: "s ! 0 = 119" "s ! Suc 0 = 101" "s ! Suc (Suc 0) = 101" "s ! Suc (Suc (Suc 0)) = 107"
    "s ! 4 = 32"
    by (simp_all add: s_def ustr_def nth_append)
  have tl: "s ! i = 49" if "5 \<le> i" "i < 5 + n" for i
    using that by (simp add: s_def ustr_def nth_append)
  have a: "rmatch (lit ''week'') s 0 [] = [(4, [])]"
    by (simp add: lit_def cp_def ustr_def hd len)
  have b: "rmatch (star ws) s 4 [] = [(5, []), (4, [])]"
    unfolding ws_def using assms
    by (subst star_one) (simp_all add: hd len tl isspace_def rng_def)
  have "\<exists>rest. rmatch (Rep 1 None (Chr (is_digit U))) s 5 [] = (length s, []) # rest"
    using assms
    by (intro rep_run) (auto simp: len tl is_digit_def ascii_digit_def rng_def)
  then obtain rest where d: "rmatch (plus (dg U)) s 5 [] = (length s, []) # rest"
    unfolding plus_def dg_def by blast
  have "rmatch (week_start U) s 0 [] \<noteq> []"
    by (simp add: week_start_def a b d)
  then have "matches (week_start U) s"
    by (auto simp: matches_def re_match_def match_at_def split: list.splits)
  then show ?thesis by (simp add: s_def)
qed

lemma is_header_week_digits: "0 < n \<Longrightarrow> is_header U (week_digits n)"
  unfolding is_header_def using week_start_digits[of n U] header_clean_week_digits[of n U] by simp

lemma classify_week_digits:
  assumes "max_str_digits < n"
  shows "classify_single_text E (Suc d) st (week_digits n) a b is_split = Inl ValueError"
proof -
  from assms have n: "0 < n" "20 \<le> length (week_digits n)"
    by (simp_all add: week_digits_length max_str_digits_def)
  with is_header_week_digits[of n "udb E"] is_week_header_overflow[OF assms, of "udb E"]
  show ?thesis by simp
qed

text \<open>
  C6 (header priority). The header branch reads the week number before it appends the item.
  The line \<^verbatim>\<open>Week\<close>, a space and 4301 times the digit \<^verbatim>\<open>1\<close> has 4306 characters and passes
  the header test, but its classification raises \<^verbatim>\<open>ValueError\<close>: the text is not classified
  as a header, and nothing is appended to any list.
\<close>

theorem header_priority_overflow:
  "20 \<le> length (week_digits 4301)
   \<and> is_header (udb E) (week_digits 4301)
   \<and> classify_single_text E (Suc d) st (week_digits 4301) a b is_split = Inl ValueError"
proof -
  have m: "max_str_digits < 4301" by (simp add: max_str_digits_def)
  have "20 \<le> length (week_digits 4301)" by (simp add: week_digits_length)
  moreover have "is_header (udb E) (week_digits 4301)" by (rule is_header_week_digits) simp
  moreover note classify_week_digits[OF m, of E d st a b is_split]
  ultimately show ?thesis by blast
qed

section \<open>Properties of the split points\<close>

lemma gap_filter_gap: "q \<in> set (gap_filter l ps) \<Longrightarrow> 30 \<le> int q - l"
proof (induction ps arbitrary: l)
  case Nil
  then show ?case by simp
next
  case (Cons p ps)
  show ?case
  proof (cases "30 \<le> int p - l")
    case True
    with Cons.prems have "q = p \<or> q \<in> set (gap_filter (int p) ps)" by simp
    then show ?thesis
    proof
      assume "q = p" with True show ?thesis by simp
    next
      assume "q \<in> set (gap_filter (int p) ps)"
      from Cons.IH[OF this] True show ?thesis by simp
    qed
  next
    case False
    with Cons.prems have "q \<in> set (gap_filter l ps)" by simp
    from Cons.IH[OF this] show ?thesis .
  qed
qed

lemma gap_filter_sorted: "sorted_wrt (\<lambda>a b. a + 30 \<le> b) (gap_filter l ps)"
proof (induction ps arbitrary: l)
  case Nil
  then show ?case by simp
next
  case (Cons p ps)
  have "\<forall>q\<in>set (gap_filter (int p) ps). p + 30 \<le> q"
    using gap_filter_gap[of _ "int p" ps] by fastforce
  with Cons.IH show ?case by simp
qed

lemma gap_filter_subset: "set (gap_filter l ps) \<subseteq> set ps"
  by (induction ps arbitrary: l) auto

lemma scan_starts: "(i, j, c) \<in> set (scan r s p is) \<Longrightarrow> i \<in> set is"
  by (induction "is" arbitrary: p) (auto split: if_splits option.splits)

lemma finditer_starts: "(i, j, c) \<in> set (finditer r s) \<Longrightarrow> i \<le> length s"
  using scan_starts[of i j c r s 0 "offsets s"] by (simp add: finditer_def offsets_def offsets_from_set)

lemma candidates_bounds: "p \<in> set (candidates U t) \<Longrightarrow> 10 < p \<and> p \<le> length t"
  by (auto simp: candidates_def dest: finditer_starts)

text \<open>
  C7 (split-point postcondition). The offsets returned by \<^verbatim>\<open>find_split_points\<close> are at
  least 30 apart, hence strictly increasing and without duplicates, and each is beyond
  offset 10 and within the text.
\<close>

theorem find_split_points_post:
  "sorted_wrt (\<lambda>a b. a + 30 \<le> b) (find_split_points U t)
   \<and> sorted_wrt (<) (find_split_points U t)
   \<and> distinct (find_split_points U t)
   \<and> (\<forall>p\<in>set (find_split_points U t). 10 < p \<and> p \<le> length t)"
proof -
  have g: "sorted_wrt (\<lambda>a b. a + 30 \<le> b) (find_split_points U t)"
    by (simp add: find_split_points_def gap_filter_sorted)
  then have s: "sorted_wrt (<) (find_split_points U t)"
    by (rule sorted_wrt_mono_rel[rotated]) simp
  then have d: "distinct (find_split_points U t)"
    by (simp add: strict_sorted_iff)
  have "set (find_split_points U t) \<subseteq> set (candidates U t)"
    using gap_filter_subset[of "- 30" "sort (remdups (candidates U t))"]
    by (simp add: find_split_points_def)
  then have b: "\<forall>p\<in>set (find_split_points U t). 10 < p \<and> p \<le> length t"
    using candidates_bounds by blast
  from g s d b show ?thesis by simp
qed

lemma split_points_example:
  "find_split_points ascii_db (ustr ''Smith (2020) Title A. 2. Jones (2019) Title B.'') = [21]"
  by (simp add: split_points_ev cls_ev text_ev rx_ev)

theorem find_split_points_post_witness:
  "find_split_points ascii_db (ustr ''Smith (2020) Title A. 2. Jones (2019) Title B.'') = [21]
   \<and> (10::nat) < 21 \<and> 21 \<le> length (ustr ''Smith (2020) Title A. 2. Jones (2019) Title B.'')"
  using find_split_points_post[of ascii_db "ustr ''Smith (2020) Title A. 2. Jones (2019) Title B.''"]
    split_points_example
  by simp

section \<open>Properties of the merger\<close>

lemma join_sp_snoc: "g \<noteq> [] \<Longrightarrow> join_sp (g @ [p]) = join_sp g @ [32] @ p"
  by (induction g rule: join_sp.induct) auto

lemma merge_loop_groups:
  assumes "merge_loop E merged cur items = Inr us"
    and "map full_text merged = map join_sp gs" and "[] \<notin> set gs"
    and "case cur of None \<Rightarrow> g = [] | Some c \<Rightarrow> g \<noteq> [] \<and> full_text c = join_sp g"
  shows "\<exists>gs'. map full_text us = map join_sp gs' \<and> [] \<notin> set gs'
            \<and> concat gs' = concat gs @ g @ pieces items"
  using assms
proof (induction items arbitrary: merged cur gs g)
  case Nil
  show ?case
  proof (cases cur)
    case None
    with Nil show ?thesis by (auto simp: pieces_def)
  next
    case (Some c)
    with Nil have "us = merged @ [c]" "g \<noteq> []" "full_text c = join_sp g" by auto
    with Nil.prems(2,3) have "map full_text us = map join_sp (gs @ [g])" "[] \<notin> set (gs @ [g])"
      "concat (gs @ [g]) = concat gs @ g @ pieces []"
      by (auto simp: pieces_def)
    then show ?thesis by blast
  qed
next
  case (Cons item items)
  let ?p = "strip (ltext item)"
  show ?case
  proof (cases "?p = []")
    case True
    with Cons.prems(1) have "merge_loop E merged cur items = Inr us" by simp
    from Cons.IH[OF this Cons.prems(2,3,4)] True show ?thesis by (simp add: pieces_def)
  next
    case False
    then have pc: "pieces (item # items) = ?p # pieces items" by (simp add: pieces_def)
    show ?thesis
    proof (cases cur)
      case None
      with False Cons.prems(1) have r: "merge_loop E merged (Some (new_unit item)) items = Inr us" by simp
      have c: "case Some (new_unit item) of None \<Rightarrow> [?p] = [] | Some c \<Rightarrow> [?p] \<noteq> [] \<and> full_text c = join_sp [?p]"
        by (simp add: new_unit_def)
      from Cons.IH[OF r Cons.prems(2,3) c] None Cons.prems(4) pc show ?thesis by simp
    next
      case (Some c)
      with Cons.prems(4) have g: "g \<noteq> []" "full_text c = join_sp g" by auto
      show ?thesis
      proof (cases "should_merge_lines E (full_text c) ?p")
        case (Inl e)
        with False Some Cons.prems(1) show ?thesis by simp
      next
        case (Inr m)
        show ?thesis
        proof (cases m)
          case True
          with Inr False Some Cons.prems(1)
          have r: "merge_loop E merged (Some (extend_unit c item)) items = Inr us" by simp
          have c': "case Some (extend_unit c item) of None \<Rightarrow> g @ [?p] = []
                    | Some c' \<Rightarrow> g @ [?p] \<noteq> [] \<and> full_text c' = join_sp (g @ [?p])"
            using g by (simp add: extend_unit_def join_sp_snoc)
          from Cons.IH[OF r Cons.prems(2,3) c'] pc show ?thesis by simp
        next
          case False2: False
          with Inr False Some Cons.prems(1)
          have r: "merge_loop E (merged @ [c]) (Some (new_unit item)) items = Inr us" by simp
          have m': "map full_text (merged @ [c]) = map join_sp (gs @ [g])" "[] \<notin> set (gs @ [g])"
            using Cons.prems(2,3) g by auto
          have c': "case Some (new_unit item) of None \<Rightarrow> [?p] = []
                    | Some c' \<Rightarrow> [?p] \<noteq> [] \<and> full_text c' = join_sp [?p]"
            by (simp add: new_unit_def)
          from Cons.IH[OF r m' c'] pc show ?thesis by simp
        qed
      qed
    qed
  qed
qed

text \<open>
  The groups of the merger, on the texts it reads: when the merger returns, the full texts of
  its units are the texts of consecutive groups of the stripped, non-empty line texts, each
  group joined by single spaces.
\<close>

lemma merge_groups:
  assumes "merge_fragmented_lines E lines = Inr us"
  shows "\<exists>gs. map full_text us = map join_sp gs \<and> [] \<notin> set gs \<and> concat gs = pieces lines"
proof -
  from assms have m: "merge_loop E [] None lines = Inr us" by (simp add: merge_fragmented_lines_def)
  have "\<exists>gs'. map full_text us = map join_sp gs' \<and> [] \<notin> set gs' \<and> concat gs' = concat [] @ [] @ pieces lines"
    by (rule merge_loop_groups[OF m]) simp_all
  then show ?thesis by simp
qed

text \<open>
  Without the analyzer no test of the merger can raise, and the merger returns on every
  sequence of lines.
\<close>

lemma is_continuation_total: "nlp E = None \<Longrightarrow> \<exists>m. is_continuation_line E t = Inr m"
  by (auto simp: is_continuation_line_def starts_with_person_def)

lemma merge_rules_total:
  assumes "nlp E = None"
  shows "\<exists>m. merge_rules E p n = Inr m"
proof -
  from is_continuation_total[OF assms] obtain m where "is_continuation_line E n = Inr m" by blast
  then show ?thesis by (cases m) (auto simp: merge_rules_def)
qed

lemma should_merge_total:
  assumes "nlp E = None"
  shows "\<exists>m. should_merge_lines E p n = Inr m"
  using merge_rules_total[OF assms, of p n] assms
  by (auto simp: should_merge_lines_def next_starts_person_def)

lemma merge_loop_total: "nlp E = None \<Longrightarrow> \<exists>us. merge_loop E merged cur items = Inr us"
proof (induction items arbitrary: merged cur)
  case Nil
  then show ?case by simp
next
  case (Cons item items)
  show ?case
  proof (cases cur)
    case None
    with Cons show ?thesis by simp
  next
    case (Some c)
    from should_merge_total[OF Cons.prems] obtain m where
      "should_merge_lines E (full_text c) (strip (ltext item)) = Inr m" by blast
    with Some Cons show ?thesis by (cases m) simp_all
  qed
qed

lemma merge_total: "nlp E = None \<Longrightarrow> \<exists>us. merge_fragmented_lines E lines = Inr us"
  by (simp add: merge_fragmented_lines_def merge_loop_total)

text \<open>
  C2 (merge completeness). The merger is called on the lines that \<^verbatim>\<open>collect_raw_lines\<close> has
  stripped and normalized, so the text of every line is its own stripped text
  (\<open>normalize_stripped\<close>). On such lines the full texts of the units are the texts of
  consecutive groups of the non-empty line texts, each group joined by single spaces: no
  group is empty, and the groups in order make up exactly the non-empty line texts in order.
  So every non-empty fragment is in exactly one unit and an empty one in none, and without
  the joining spaces the units concatenate to the concatenation of the non-empty fragments.
  Without the analyzer the merger returns on every such sequence.
\<close>

theorem merge_completeness:
  assumes "\<forall>l\<in>set lines. strip (ltext l) = ltext l"
  shows "(nlp E = None \<longrightarrow> (\<exists>us. merge_fragmented_lines E lines = Inr us))
     \<and> (\<forall>us. merge_fragmented_lines E lines = Inr us \<longrightarrow>
          (\<exists>gs. map full_text us = map join_sp gs \<and> [] \<notin> set gs
             \<and> concat gs = filter (\<lambda>s. s \<noteq> []) (map ltext lines)
             \<and> concat (map concat gs) = concat (filter (\<lambda>s. s \<noteq> []) (map ltext lines))))"
proof -
  from assms have m: "map (\<lambda>l. strip (ltext l)) lines = map ltext lines" by simp
  have p: "pieces lines = filter (\<lambda>s. s \<noteq> []) (map ltext lines)" unfolding pieces_def m ..
  have c: "concat (map concat gs) = concat (concat gs)" for gs :: "ustring list list"
    by (induction gs) auto
  have "\<exists>gs. map full_text us = map join_sp gs \<and> [] \<notin> set gs
             \<and> concat gs = filter (\<lambda>s. s \<noteq> []) (map ltext lines)
             \<and> concat (map concat gs) = concat (filter (\<lambda>s. s \<noteq> []) (map ltext lines))"
    if "merge_fragmented_lines E lines = Inr us" for us
  proof -
    from merge_groups[OF that] obtain gs where
      gs: "map full_text us = map join_sp gs" "[] \<notin> set gs" "concat gs = pieces lines"
      by blast
    from gs(3) c[of gs] have "concat (map concat gs) = concat (pieces lines)" by simp
    with gs p show ?thesis by auto
  qed
  with merge_total[of E lines] show ?thesis by blast
qed

lemma smith_merge:
  "should_merge_lines plain_env (ustr ''Smith, J. (2020). Gender and'') (ustr ''Power. Oxford University Press.'')
     = Inr True"
  by (simp add: merge_ev cls_ev text_ev rx_ev)

lemma strip_smith: "strip smith1 = smith1" "strip smith2 = smith2" "smith1 \<noteq> []" "smith2 \<noteq> []"
  by (simp_all add: smith1_def smith2_def text_ev)

lemma smith_merge': "should_merge_lines plain_env smith1 smith2 = Inr True"
  using smith_merge by (simp add: smith1_def smith2_def)

lemma smith_units:
  "merge_fragmented_lines plain_env
     [\<lparr> ltext = smith1, lstart = 0, lend = 28 \<rparr>, \<lparr> ltext = smith2, lstart = 28, lend = 60 \<rparr>]
   = Inr [\<lparr> utext = display (smith1 @ [32] @ smith2), full_text = smith1 @ [32] @ smith2, ustart = 0, uend = 60 \<rparr>]"
  by (simp add: merge_fragmented_lines_def strip_smith smith_merge' new_unit_def extend_unit_def)

text \<open>
  The two stripped fragments of one citation are merged into one unit, their texts joined by
  one space: the unit is the group of both.
\<close>

theorem merge_completeness_witness:
  "strip smith1 = smith1 \<and> strip smith2 = smith2
   \<and> merge_fragmented_lines plain_env
       [\<lparr> ltext = smith1, lstart = 0, lend = 28 \<rparr>, \<lparr> ltext = smith2, lstart = 28, lend = 60 \<rparr>]
     = Inr [\<lparr> utext = display (smith1 @ [32] @ smith2), full_text = smith1 @ [32] @ smith2, ustart = 0, uend = 60 \<rparr>]
   \<and> smith1 @ [32] @ smith2 = ustr ''Smith, J. (2020). Gender and Power. Oxford University Press.''
   \<and> (\<exists>gs. [smith1 @ [32] @ smith2] = map join_sp gs \<and> concat gs = [smith1, smith2])"
proof -
  let ?lines = "[\<lparr> ltext = smith1, lstart = 0, lend = 28 \<rparr>, \<lparr> ltext = smith2, lstart = 28, lend = 60 \<rparr>]"
  have st: "\<forall>l\<in>set ?lines. strip (ltext l) = ltext l" by (simp add: strip_smith)
  have e: "smith1 @ [32] @ smith2 = ustr ''Smith, J. (2020). Gender and Power. Oxford University Press.''"
    by (simp add: smith1_def smith2_def ustr_def)
  from merge_completeness[OF st, of plain_env] smith_units
  obtain gs where "map full_text [\<lparr> utext = display (smith1 @ [32] @ smith2),
        full_text = smith1 @ [32] @ smith2, ustart = 0, uend = 60 \<rparr>] = map join_sp gs"
    and "concat gs = filter (\<lambda>s. s \<noteq> []) (map ltext ?lines)"
    by blast
  then have "[smith1 @ [32] @ smith2] = map join_sp gs \<and> concat gs = [smith1, smith2]"
    by (simp add: strip_smith)
  then have "\<exists>gs. [smith1 @ [32] @ smith2] = map join_sp gs \<and> concat gs = [smith1, smith2]"
    by (rule exI)
  with smith_units e strip_smith show ?thesis by simp
qed

section \<open>Properties of the splitter\<close>

















lemma hyphen_not_header: "\<not> is_header ascii_db hyphen_line"
  by (simp add: hyphen_line_def hdr_ev cls_ev text_ev rx_ev)

lemma hyphen_instr: "get_instruction_score plain_env hyphen_line < 3"
  by (simp add: hyphen_line_def instr_ev hdr_ev cls_ev text_ev rx_ev)

lemma hyphen_score: "fst (get_reading_score plain_env hyphen_line) < 3"
  by (simp add: hyphen_line_def reading_ev hdr_ev cls_ev text_ev rx_ev)


section \<open>Totality\<close>

text \<open>
  What the claim says of empty input holds: an empty text is too short, and the merger skips
  a line whose text is empty or whitespace.
\<close>

lemma empty_text_too_short:
  "classify_single_text E (Suc d) st [] a b is_split = Inr (as_too_short (new_item E st [] a b is_split) st)"
  by simp

lemma merge_skips_empty:
  "strip (ltext l) = [] \<Longrightarrow> merge_loop E merged cur (l # ls) = merge_loop E merged cur ls"
  by simp

text \<open>
  The line \<open>week_digits n\<close> through the run: it has at most one author-year pair and at
  most two capitalized sentence starts, so it is not split before it is classified.
\<close>

lemma week_digits_later:
  assumes "0 < i" and "i < length (week_digits n)"
  shows "week_digits n ! i \<in> {101, 107, 32, 49}"
proof (cases "i < 5")
  case True
  with assms(1) have "i = Suc 0 \<or> i = Suc (Suc 0) \<or> i = Suc (Suc (Suc 0)) \<or> i = 4" by arith
  then show ?thesis using week_digits_head[of n] by auto
next
  case False
  with assms(2) show ?thesis by (simp add: week_digits_tail week_digits_length)
qed

lemma author_year_week_digits: "length (extract_author_year_pairs U (week_digits n)) \<le> 1"
proof -
  obtain X Y where r: "author_year U = Seq (Grp 1 (Seq (Chr (cls U [CR 65 90])) X)) Y"
    by (simp add: author_year_def)
  have "match_at (author_year U) (week_digits n) i False = None" if "0 < i" for i
  proof -
    have "\<not> (i < length (week_digits n) \<and> cls U [CR 65 90] (week_digits n ! i))"
      using week_digits_later[OF that, of n] by (auto simp: cls_def rng_def)
    then show ?thesis by (intro match_at_none) (simp add: r)
  qed
  moreover have "0 < j" if "(j, c) \<in> set (rmatch (author_year U) (week_digits n) 0 [])" for j c
    using that unfolding r by (rule grp_chr_advances)
  ultimately have "length (finditer (author_year U) (week_digits n)) \<le> 1"
    by (rule finditer_first_only(2))
  then show ?thesis by (simp add: extract_author_year_pairs_def)
qed

lemma author_like_week_digits: "length (finditer (author_like U) (week_digits n)) \<le> 2"
proof -
  obtain W G where r: "author_like U = Seq (Alt Bol (Seq (Chr (cls U [CL 46, CL 59])) W)) G"
    by (simp add: author_like_def)
  have "match_at (author_like U) (week_digits n) i False = None" if "0 < i" for i
  proof -
    have "\<not> (i < length (week_digits n) \<and> cls U [CL 46, CL 59] (week_digits n ! i))"
      using week_digits_later[OF that, of n] by (auto simp: cls_def)
    with that show ?thesis by (intro match_at_none) (simp add: r)
  qed
  then show ?thesis by (rule finditer_first_only(1))
qed

lemma not_worth_splitting_week_digits: "\<not> worth_splitting U (week_digits n)"
  using author_year_week_digits[of U n] author_like_week_digits[of U n]
  by (simp add: worth_splitting_def)

lemma strip_week_digits: "0 < n \<Longrightarrow> strip (week_digits n) = week_digits n"
  by (intro strip_id) (simp_all add: week_digits_def ustr_def isspace_def rng_def)

lemma clean_syllabus_week_digits:
  assumes "max_str_digits < n"
  shows "clean_syllabus E (Suc d) [\<lparr> ltext = week_digits n, lstart = a, lend = b \<rparr>] = Inl ValueError"
proof -
  from assms have n: "0 < n" by simp
  then have s: "strip (week_digits n) = week_digits n" "week_digits n \<noteq> []"
    by (simp_all add: strip_week_digits) (simp add: week_digits_def ustr_def)
  then have m: "merge_fragmented_lines E [\<lparr> ltext = week_digits n, lstart = a, lend = b \<rparr>]
      = Inr [\<lparr> utext = week_digits n, full_text = week_digits n, ustart = a, uend = b \<rparr>]"
    by (simp add: merge_fragmented_lines_def new_unit_def)
  have "classify_line E (Suc d) initial_state
      \<lparr> utext = week_digits n, full_text = week_digits n, ustart = a, uend = b \<rparr> = Inl ValueError"
    by (simp add: classify_line_def not_worth_splitting_week_digits classify_week_digits[OF assms]
        del: classify_single_text.simps)
  then show ?thesis
    by (simp add: clean_syllabus_def m classify_units_def)
qed

text \<open>
  C8 (totality on malformed input). The run on a document whose only line is \<^verbatim>\<open>Week\<close>, a
  space and 4301 times the digit \<^verbatim>\<open>1\<close> raises \<^verbatim>\<open>ValueError\<close>, with any analyzer or none:
  the merger returns the line as one unit, the unit is not split, its classification enters
  the header branch, and there \<^verbatim>\<open>is_week_header\<close> raises.
\<close>

theorem pipeline_raises:
  "is_week_header (udb E) (week_digits 4301) = Inl ValueError
   \<and> clean_syllabus E (Suc d) [\<lparr> ltext = week_digits 4301, lstart = a, lend = b \<rparr>] = Inl ValueError"
proof -
  have m: "max_str_digits < 4301" by (simp add: max_str_digits_def)
  from is_week_header_overflow[OF m, of "udb E"] clean_syllabus_week_digits[OF m, of E d a b]
  show ?thesis by (rule conjI)
qed

section \<open>Week tagging\<close>

text \<open>The branches of the classifier that the three lines take.\<close>

lemma week_header_branch:
  assumes "20 \<le> length t" and "is_header (udb E) t" and "is_week_header (udb E) t = Inr w"
  shows "classify_single_text E (Suc d) st t a b is_split = Inr (as_header w (new_item E st t a b is_split) st)"
  using assms by simp

lemma reading_branch:
  assumes "20 \<le> length t" and "\<not> is_header (udb E) t" and "\<not> is_instruction E t"
    and "3 \<le> fst (get_reading_score E t)"
  shows "classify_single_text E (Suc d) st t a b is_split = Inr (as_reading (new_item E st t a b is_split) st)"
  using assms by simp

lemma short_not_split: "length t \<le> 60 \<Longrightarrow> \<not> worth_splitting U t"
  by (simp add: worth_splitting_def)

text \<open>
  The two headers pass the header test, with the week numbers 5 and 0; the reading is not a
  header, has the instruction score 0 and the reading score 6; and the merger keeps the three
  lines apart.
\<close>

lemma week5_is_header: "is_header ascii_db week5_line"
  by (simp add: week5_line_def hdr_ev cls_ev text_ev rx_ev)

lemma week0_is_header: "is_header ascii_db week0_line"
  by (simp add: week0_line_def hdr_ev cls_ev text_ev rx_ev)

lemma week5_number: "is_week_header ascii_db week5_line = Inr (Some 5)"
  by (simp add: week5_line_def hdr_ev cls_ev text_ev rx_ev)

lemma week0_number: "is_week_header ascii_db week0_line = Inr (Some 0)"
  by (simp add: week0_line_def hdr_ev cls_ev text_ev rx_ev)

lemma smith_not_header: "\<not> is_header ascii_db smith_line"
  by (simp add: smith_line_def hdr_ev cls_ev text_ev rx_ev)

lemma merge_5_0: "should_merge_lines plain_env week5_line week0_line = Inr False"
  by (simp add: week5_line_def week0_line_def merge_ev cls_ev text_ev rx_ev)

lemma merge_0_smith: "should_merge_lines plain_env week0_line smith_line = Inr False"
  by (simp add: week0_line_def smith_line_def merge_ev cls_ev text_ev rx_ev)

lemma smith_instr: "get_instruction_score plain_env smith_line = 0"
  by (simp add: smith_line_def instr_ev hdr_ev cls_ev text_ev rx_ev)

lemma smith_score: "fst (get_reading_score plain_env smith_line) = 6"
  by (simp add: smith_line_def reading_ev hdr_ev cls_ev text_ev rx_ev)

lemma line_lengths:
  "length week5_line = 25" "length week0_line = 25" "length smith_line = 30"
  by (simp_all add: week5_line_def week0_line_def smith_line_def ustr_def)

lemma line_strips:
  "strip week5_line = week5_line" "strip week0_line = week0_line" "strip smith_line = smith_line"
  by (simp_all add: week5_line_def week0_line_def smith_line_def text_ev)

lemma smith_not_instruction: "\<not> is_instruction plain_env smith_line"
  by (simp add: is_instruction_def line_strips smith_instr)

lemma week0_merge:
  "merge_fragmented_lines plain_env week0_lines
   = Inr [\<lparr> utext = week5_line, full_text = week5_line, ustart = 1, uend = 27 \<rparr>,
          \<lparr> utext = week0_line, full_text = week0_line, ustart = 27, uend = 53 \<rparr>,
          \<lparr> utext = smith_line, full_text = smith_line, ustart = 53, uend = 84 \<rparr>]"
proof -
  have ne: "week5_line \<noteq> []" "week0_line \<noteq> []" "smith_line \<noteq> []"
    using line_lengths by auto
  show ?thesis
    by (simp add: merge_fragmented_lines_def week0_lines_def line_strips ne merge_5_0 merge_0_smith
        new_unit_def)
qed

text \<open>
  C4 (week tagging). The header branch tests \<^verbatim>\<open>if week:\<close>, which fails for the week number
  0 as it does for \<^verbatim>\<open>None\<close>. In the run on the three lines both headers are classified as
  headers and the second one matches the week pattern with the number 0, but the week counter
  stays at 5, and the reading that follows the header of week 0 is tagged with week 5.
\<close>

theorem week_zero_header_ignored:
  "is_header (udb plain_env) week0_line
   \<and> is_week_header (udb plain_env) week0_line = Inr (Some 0)
   \<and> (\<exists>st'. clean_syllabus plain_env 1 week0_lines = Inr st'
         \<and> map item_text (headers st') = [week5_line, week0_line]
         \<and> map item_text (readings st') = [smith_line]
         \<and> map week (readings st') = [5]
         \<and> current_week st' = 5)"
proof -
  have p: "udb plain_env = ascii_db" by (simp add: plain_env_def)
  let ?c = "\<lambda>st t a b. classify_single_text plain_env (Suc 0) st t a b False"
  define s1 where "s1 = as_header (Some 5) (new_item plain_env initial_state week5_line 1 27 False) initial_state"
  define s2 where "s2 = as_header (Some 0) (new_item plain_env s1 week0_line 27 53 False) s1"
  define s3 where "s3 = as_reading (new_item plain_env s2 smith_line 53 84 False) s2"
  have c1: "?c initial_state week5_line 1 27 = Inr s1"
    unfolding s1_def by (rule week_header_branch) (simp_all add: p line_lengths week5_is_header week5_number)
  have c2: "?c s1 week0_line 27 53 = Inr s2"
    unfolding s2_def by (rule week_header_branch) (simp_all add: p line_lengths week0_is_header week0_number)
  have c3: "?c s2 smith_line 53 84 = Inr s3"
    unfolding s3_def
    by (rule reading_branch) (simp_all add: p line_lengths smith_not_header smith_not_instruction smith_score)
  have n: "\<not> worth_splitting (udb plain_env) week5_line" "\<not> worth_splitting (udb plain_env) week0_line"
    "\<not> worth_splitting (udb plain_env) smith_line"
    by (simp_all add: short_not_split line_lengths)
  have r: "clean_syllabus plain_env 1 week0_lines = Inr s3"
    by (simp add: clean_syllabus_def week0_merge classify_units_def classify_line_def n c1 c2 c3
        del: classify_single_text.simps)
  have w1: "current_week s1 = 5" "headers s1 = [new_item plain_env initial_state week5_line 1 27 False \<lparr> week := 5 \<rparr>]"
    "readings s1 = []"
    by (simp_all add: s1_def as_header_def note_url_def initial_state_def)
  have w2: "current_week s2 = 5" "map item_text (headers s2) = [week5_line, week0_line]" "readings s2 = []"
    by (simp_all add: s2_def as_header_def note_url_def w1 new_item_def)
  have w3: "current_week s3 = 5" "map item_text (headers s3) = [week5_line, week0_line]"
    "map item_text (readings s3) = [smith_line]" "map week (readings s3) = [5]"
    by (simp_all add: s3_def as_reading_def note_url_def w2 new_item_def)
  from r w3 week0_is_header week0_number p show ?thesis by simp
qed

section \<open>Week headers are headers\<close>

text \<open>
  A match of the week pattern \<^verbatim>\<open>^\s*week\s+(\d+)\<close> under \<^verbatim>\<open>re.I\<close> lays the text out as
  whitespace, four letters, whitespace and digits; lowercased and stripped, that text starts
  with \<^verbatim>\<open>week\<close>, whitespace and digits, which is the week test of \<^verbatim>\<open>is_header\<close>.
\<close>

lemma week_number_shape:
  assumes "(j, c) \<in> set (rmatch (week_number U) t 0 [])"
  shows "\<exists>a b. a + 4 < b \<and> b < j \<and> j \<le> length t
           \<and> (\<forall>x. 0 \<le> x \<and> x < a \<longrightarrow> isspace (t ! x))
           \<and> ci U (\<lambda>x. x = 119) (t ! a) \<and> ci U (\<lambda>x. x = 101) (t ! (a + 1))
           \<and> ci U (\<lambda>x. x = 101) (t ! (a + 2)) \<and> ci U (\<lambda>x. x = 107) (t ! (a + 3))
           \<and> (\<forall>x. a + 4 \<le> x \<and> x < b \<longrightarrow> isspace (t ! x))
           \<and> (\<forall>x. b \<le> x \<and> x < j \<longrightarrow> is_digit U (t ! x))"
proof -
  have r: "week_number U = Seq Bol (Seq (Rep 0 None (Chr isspace))
      (Seq (Seq (Chr (ci U (\<lambda>x. x = 119))) (Seq (Chr (ci U (\<lambda>x. x = 101)))
          (Seq (Chr (ci U (\<lambda>x. x = 101))) (Chr (ci U (\<lambda>x. x = 107))))))
        (Seq (Rep 1 None (Chr isspace)) (Grp 1 (Rep 1 None (Chr (is_digit U)))))))"
    by (simp add: week_number_def liti_def ustr_def star_def plus_def ws_def dg_def)
  from seq_mem[OF assms[unfolded r]] obtain i0 c0 where
    0: "(i0, c0) \<in> set (rmatch Bol t 0 [])"
    and 1: "(j, c) \<in> set (rmatch (Seq (Rep 0 None (Chr isspace))
      (Seq (Seq (Chr (ci U (\<lambda>x. x = 119))) (Seq (Chr (ci U (\<lambda>x. x = 101)))
          (Seq (Chr (ci U (\<lambda>x. x = 101))) (Chr (ci U (\<lambda>x. x = 107))))))
        (Seq (Rep 1 None (Chr isspace)) (Grp 1 (Rep 1 None (Chr (is_digit U))))))) t i0 c0)"
    by blast
  from 0 have i0: "i0 = 0" by simp
  from seq_mem[OF 1] obtain a c1 where
    2: "(a, c1) \<in> set (rmatch (Rep 0 None (Chr isspace)) t i0 c0)"
    and 3: "(j, c) \<in> set (rmatch (Seq (Seq (Chr (ci U (\<lambda>x. x = 119))) (Seq (Chr (ci U (\<lambda>x. x = 101)))
          (Seq (Chr (ci U (\<lambda>x. x = 101))) (Chr (ci U (\<lambda>x. x = 107))))))
        (Seq (Rep 1 None (Chr isspace)) (Grp 1 (Rep 1 None (Chr (is_digit U)))))) t a c1)"
    by blast
  from rep_mem[OF 2] i0 have sp1: "\<forall>x. 0 \<le> x \<and> x < a \<longrightarrow> isspace (t ! x)" by simp
  from seq_mem[OF 3] obtain e c2 where
    4: "(e, c2) \<in> set (rmatch (Seq (Chr (ci U (\<lambda>x. x = 119))) (Seq (Chr (ci U (\<lambda>x. x = 101)))
          (Seq (Chr (ci U (\<lambda>x. x = 101))) (Chr (ci U (\<lambda>x. x = 107)))))) t a c1)"
    and 5: "(j, c) \<in> set (rmatch (Seq (Rep 1 None (Chr isspace)) (Grp 1 (Rep 1 None (Chr (is_digit U))))) t e c2)"
    by blast
  from seq_mem[OF 4] obtain p1 d1 where
    w: "(p1, d1) \<in> set (rmatch (Chr (ci U (\<lambda>x. x = 119))) t a c1)"
    and 6: "(e, c2) \<in> set (rmatch (Seq (Chr (ci U (\<lambda>x. x = 101)))
          (Seq (Chr (ci U (\<lambda>x. x = 101))) (Chr (ci U (\<lambda>x. x = 107))))) t p1 d1)"
    by blast
  from seq_mem[OF 6] obtain p2 d2 where
    e1: "(p2, d2) \<in> set (rmatch (Chr (ci U (\<lambda>x. x = 101))) t p1 d1)"
    and 7: "(e, c2) \<in> set (rmatch (Seq (Chr (ci U (\<lambda>x. x = 101))) (Chr (ci U (\<lambda>x. x = 107)))) t p2 d2)"
    by blast
  from seq_mem[OF 7] obtain p3 d3 where
    e2: "(p3, d3) \<in> set (rmatch (Chr (ci U (\<lambda>x. x = 101))) t p2 d2)"
    and k: "(e, c2) \<in> set (rmatch (Chr (ci U (\<lambda>x. x = 107))) t p3 d3)"
    by blast
  from chr_match[OF w] chr_match[OF e1] chr_match[OF e2] chr_match[OF k]
  have letters: "e = a + 4" "ci U (\<lambda>x. x = 119) (t ! a)" "ci U (\<lambda>x. x = 101) (t ! (a + 1))"
    "ci U (\<lambda>x. x = 101) (t ! (a + 2))" "ci U (\<lambda>x. x = 107) (t ! (a + 3))"
    by (simp_all add: numeral_eq_Suc)
  from seq_mem[OF 5] obtain b c3 where
    8: "(b, c3) \<in> set (rmatch (Rep 1 None (Chr isspace)) t e c2)"
    and 9: "(j, c) \<in> set (rmatch (Grp 1 (Rep 1 None (Chr (is_digit U)))) t b c3)"
    by blast
  from rep_mem[OF 8] letters(1)
  have sp2: "a + 4 < b" "\<forall>x. a + 4 \<le> x \<and> x < b \<longrightarrow> isspace (t ! x)" by auto
  from grp_mem[OF 9] obtain c4 where 10: "(j, c4) \<in> set (rmatch (Rep 1 None (Chr (is_digit U))) t b c3)"
    by blast
  from rep_mem[OF 10]
  have dg: "b < j" "\<forall>x. b \<le> x \<and> x < j \<longrightarrow> x < length t \<and> is_digit U (t ! x)" by auto
  from dg(1) have "b \<le> j - 1 \<and> j - 1 < j" by simp
  with dg(2) have "j - 1 < length t" by blast
  with dg(1) have "j \<le> length t" by simp
  with sp1 sp2 letters dg show ?thesis by blast
qed

lemma week_match_is_header:
  assumes ok: "consistent_db U" and m: "(j, c) \<in> set (rmatch (week_number U) t 0 [])"
  shows "matches (week_start U) (header_clean U t)"
proof -
  from week_number_shape[OF m] obtain a b where
    ab: "a + 4 < b" "b < j" "j \<le> length t"
    and sp1: "\<forall>x. 0 \<le> x \<and> x < a \<longrightarrow> isspace (t ! x)"
    and l: "ci U (\<lambda>x. x = 119) (t ! a)" "ci U (\<lambda>x. x = 101) (t ! (a + 1))"
      "ci U (\<lambda>x. x = 101) (t ! (a + 2))" "ci U (\<lambda>x. x = 107) (t ! (a + 3))"
    and sp2: "\<forall>x. a + 4 \<le> x \<and> x < b \<longrightarrow> isspace (t ! x)"
    and dg: "\<forall>x. b \<le> x \<and> x < j \<longrightarrow> is_digit U (t ! x)"
    by blast
  from ok have lw: "\<And>c. isspace c \<Longrightarrow> lower_cp U c = [c]"
    and ld: "\<And>c. is_digit U c \<Longrightarrow> lower_cp U c = [c]"
    and ds: "\<And>c. is_digit U c \<Longrightarrow> \<not> isspace c"
    and l119: "\<And>c. ci U (\<lambda>x. x = 119) c \<Longrightarrow> lower_cp U c = [119]"
    and l101: "\<And>c. ci U (\<lambda>x. x = 101) c \<Longrightarrow> lower_cp U c = [101]"
    and l107: "\<And>c. ci U (\<lambda>x. x = 107) c \<Longrightarrow> lower_cp U c = [107]"
    by (simp_all add: consistent_db_def)
  define w1 where "w1 = take a t"
  define k4 where "k4 = take 4 (drop a t)"
  define w2 where "w2 = take (b - (a + 4)) (drop (a + 4) t)"
  define dd where "dd = take (j - b) (drop b t)"
  define rest where "rest = drop j t"
  have t: "t = w1 @ k4 @ w2 @ dd @ rest"
  proof -
    have "drop a t = k4 @ drop (a + 4) t" using drop_split[of a "a + 4" t] by (simp add: k4_def)
    moreover have "drop (a + 4) t = w2 @ drop b t" using drop_split[of "a + 4" b t] ab by (simp add: w2_def)
    moreover have "drop b t = dd @ rest" using drop_split[of b j t] ab by (simp add: dd_def rest_def)
    moreover have "t = w1 @ drop a t" by (simp add: w1_def)
    ultimately show ?thesis by simp
  qed
  have w1s: "\<forall>c\<in>set w1. isspace c"
    using run_list[of a t 0 isspace] sp1 ab by (simp add: w1_def)
  have w2s: "\<forall>c\<in>set w2. isspace c"
    unfolding w2_def using sp2 ab by (intro run_list) auto
  have dds: "\<forall>c\<in>set dd. is_digit U c"
    unfolding dd_def using dg ab by (intro run_list) auto
  have ddn: "dd \<noteq> []" using ab by (auto simp: dd_def)
  have k4l: "length k4 = 4" using ab by (simp add: k4_def)
  have k4n: "k4 ! 0 = t ! a" "k4 ! 1 = t ! (a + 1)" "k4 ! 2 = t ! (a + 2)" "k4 ! 3 = t ! (a + 3)"
    using ab by (simp_all add: k4_def)
  from k4l have k4: "k4 = [k4 ! 0, k4 ! 1, k4 ! 2, k4 ! 3]"
    by (auto simp: numeral_eq_Suc length_Suc_conv)
  have "lower U k4 = lower_cp U (k4 ! 0) @ lower_cp U (k4 ! 1) @ lower_cp U (k4 ! 2) @ lower_cp U (k4 ! 3)"
    by (subst k4) (simp add: lower_def)
  with k4n l have lk: "lower U k4 = [119, 101, 101, 107]"
    by (simp add: l119 l101 l107)
  have lo: "lower U t = w1 @ [119, 101, 101, 107] @ w2 @ dd @ lower U rest"
    by (subst t) (simp add: lower_append lk lower_fixed w1s w2s dds lw ld)
  have "lstrip (lower U t) = [119, 101, 101, 107] @ w2 @ dd @ lower U rest"
    unfolding lo lstrip_def using w1s by (subst dropWhile_append2) (auto simp: isspace_def rng_def)
  moreover have "\<exists>r'. rstrip (([119, 101, 101, 107] @ w2 @ dd) @ lower U rest) = ([119, 101, 101, 107] @ w2 @ dd) @ r'"
    using ddn dds ds by (intro rstrip_keeps) auto
  ultimately obtain r' where hl: "header_lower U t = [119, 101, 101, 107] @ w2 @ dd @ r'"
    by (auto simp: header_lower_def strip_def)
  define s' where "s' = [119, 101, 101, 107] @ w2 @ dd @ r'"
  have "strip_bullets U s' = s'"
    by (intro strip_bullets_id) (simp add: s'_def cls_def is_digit_def ascii_digit_def rng_def)
  with hl have hc: "header_clean U t = s'" by (simp add: header_clean_def s'_def)
  have len: "4 + length w2 + length dd \<le> length s'" by (simp add: s'_def)
  have r: "week_start U = Seq Bol (Seq (lit ''week'')
      (Seq (Rep 0 None (Chr isspace)) (Rep 1 None (Chr (is_digit U)))))"
    by (simp add: week_start_def star_def plus_def ws_def dg_def)
  have a0: "(0, []) \<in> set (rmatch Bol s' 0 [])" by simp
  have a1: "(4, []) \<in> set (rmatch (lit ''week'') s' 0 [])"
    by (simp add: lit_def cp_def ustr_def s'_def)
  define K :: ustring where "K = [119, 101, 101, 107]"
  have lenK: "length K = 4" by (simp add: K_def)
  have sK: "s' = K @ w2 @ dd @ r'" "s' = (K @ w2) @ dd @ r'" by (simp_all add: s'_def K_def)
  have n2: "isspace (s' ! x)" if "4 \<le> x" "x < 4 + length w2" for x
  proof -
    from that have "s' ! x = w2 ! (x - 4)" "x - 4 < length w2"
      unfolding sK(1) using nth_mid[of K x w2 "dd @ r'"] by (simp_all add: lenK)
    with w2s show ?thesis by simp
  qed
  have n3: "is_digit U (s' ! x)" if "4 + length w2 \<le> x" "x < 4 + length w2 + length dd" for x
  proof -
    from that have "s' ! x = dd ! (x - (4 + length w2))" "x - (4 + length w2) < length dd"
      unfolding sK(2) using nth_mid[of "K @ w2" x dd r'] by (simp_all add: lenK)
    with dds show ?thesis by simp
  qed
  have a2: "(4 + length w2, []) \<in> set (rmatch (Rep 0 None (Chr isspace)) s' 4 [])"
    using n2 len by (intro rep_in) auto
  have a3: "(4 + length w2 + length dd, []) \<in> set (rmatch (Rep 1 None (Chr (is_digit U))) s' (4 + length w2) [])"
    using n3 len ddn by (intro rep_in) (auto simp: Suc_le_eq)
  have "(4 + length w2 + length dd, []) \<in> set (rmatch (week_start U) s' 0 [])"
    unfolding r by (rule seq_in[OF a0 seq_in[OF a1 seq_in[OF a2 a3]]])
  then have "rmatch (week_start U) s' 0 [] \<noteq> []" by (rule in_set_not_nil)
  with hc show ?thesis by (simp add: matches_iff)
qed

text \<open>
  C10 (week headers are headers). For every text, when \<^verbatim>\<open>is_week_header\<close> returns a week
  number, \<^verbatim>\<open>is_header\<close> is true of the same text. The database is assumed consistent, as
  Python's is.
\<close>

theorem week_headers_are_headers:
  assumes "consistent_db U" and "is_week_header U t = Inr (Some n)"
  shows "is_header U t"
proof -
  from assms(2) have "re_match (week_number U) t \<noteq> None"
    by (auto simp: is_week_header_def split: option.splits)
  then have "rmatch (week_number U) t 0 [] \<noteq> []" using matches_iff[of "week_number U" t]
    by (simp add: matches_def)
  then obtain j c where "(j, c) \<in> set (rmatch (week_number U) t 0 [])"
    by (cases "rmatch (week_number U) t 0 []") auto
  from week_match_is_header[OF assms(1) this] show ?thesis unfolding is_header_def by blast
qed

lemma ascii_db_consistent: "consistent_db ascii_db"
  by (auto simp: consistent_db_def lower_cp_def is_digit_def ci_def case_variants_def swapcase_def
      ascii_db_def ascii_upper_def ascii_lower_def ascii_digit_def isspace_def rng_def)

lemma shouted_week: "is_week_header ascii_db (ustr '' WEEK  12 - Revision'') = Inr (Some 12)"
  by (simp add: hdr_ev cls_ev text_ev rx_ev)

text \<open>
  The rule at a week header in capitals with leading whitespace and two spaces before the
  number.
\<close>

theorem week_headers_are_headers_witness:
  "is_week_header ascii_db (ustr '' WEEK  12 - Revision'') = Inr (Some 12)
   \<and> is_header ascii_db (ustr '' WEEK  12 - Revision'')"
  using week_headers_are_headers[OF ascii_db_consistent shouted_week] shouted_week by simp

section \<open>Exclusive labels\<close>

text \<open>
  \<^verbatim>\<open>is_instruction\<close> and \<^verbatim>\<open>is_reading\<close> apply the header test to the stripped text. The
  header test of a text and of its stripped text agree except in the last test,
  \<^verbatim>\<open>^[IVX]+\.\s\<close>, which is made on the text as given and can need its trailing whitespace.
\<close>

lemma header_lower_strip:
  assumes "whitespace_uncased U"
  shows "header_lower U (strip t) = header_lower U t"
proof -
  obtain w1 w2 where d: "t = w1 @ strip t @ w2" "\<forall>c\<in>set w1. isspace c" "\<forall>c\<in>set w2. isspace c"
    by (rule strip_decomp)
  from assms d(2,3) have "lower U w1 = w1" "lower U w2 = w2"
    by (auto intro!: lower_fixed simp: whitespace_uncased_def)
  then have "lower U (w1 @ strip t @ w2) = w1 @ lower U (strip t) @ w2" by (simp add: lower_append)
  with d(1) have "lower U t = w1 @ lower U (strip t) @ w2" by simp
  then show ?thesis using strip_pad[OF d(2,3)] by (simp add: header_lower_def)
qed

lemma isupper_strip:
  assumes "whitespace_uncased U" and "isupper U (replace_cp 32 [] t)"
  shows "isupper U (replace_cp 32 [] (strip t))"
proof -
  obtain w1 w2 where d: "t = w1 @ strip t @ w2" "\<forall>c\<in>set w1. isspace c" "\<forall>c\<in>set w2. isspace c"
    by (rule strip_decomp)
  have st: "set t = set w1 \<union> set (strip t) \<union> set w2" by (subst d(1)) auto
  from assms(2) have a: "\<forall>c\<in>set t - {32}. \<not> cp_islower U c \<and> \<not> cp_istitle U c"
    and "\<exists>c\<in>set t - {32}. cp_isupper U c"
    by (auto simp: isupper_def list_all_iff list_ex_iff set_replace_cp)
  then obtain c where c: "c \<in> set t" "c \<noteq> 32" "cp_isupper U c" by auto
  with assms(1) have "\<not> isspace c" by (auto simp: whitespace_uncased_def)
  with c(1) d(2,3) st have "c \<in> set (strip t)" by auto
  with c a st show ?thesis
    by (auto simp: isupper_def list_all_iff list_ex_iff set_replace_cp)
qed

lemma is_header_strip:
  assumes u: "whitespace_uncased U" and h: "is_header U t" and l: "3 < length (strip t)"
    and r: "\<not> matches (roman_numeral U) t"
  shows "is_header U (strip t)"
proof -
  have hl: "header_lower U (strip t) = header_lower U t" using u by (rule header_lower_strip)
  then have hc: "header_clean U (strip t) = header_clean U t" by (simp add: header_clean_def)
  have ss: "strip (strip t) = strip t" by (rule strip_strip)
  have le: "length (strip t) \<le> length t" by (rule length_strip)
  have up: "isupper U (replace_cp 32 [] t) \<Longrightarrow> isupper U (replace_cp 32 [] (strip t))"
    using u by (rule isupper_strip)
  have en: "endswith t (ustr '':'') \<Longrightarrow> endswith (strip t) (ustr '':'')"
    using endswith_strip[of t 58] by (simp add: ustr_def isspace_def rng_def)
  from h r consider
      "matches (course_code U) (strip t)"
    | "found (term_in_brackets U) (header_lower U t)"
    | "found (term_in_parens U) (header_lower U t)"
    | "matches (week_start U) (header_clean U t)"
    | "matches (session_start U) (header_clean U t)"
    | "matches (month_day U) (header_clean U t)"
    | "matches (slash_date U) (header_clean U t)"
    | "matches (weekday_start U) (header_clean U t)"
    | "keyword_header (header_clean U t)"
    | "length t < 60 \<and> isupper U (replace_cp 32 [] t) \<and> 3 < length t"
    | "length t < 40 \<and> endswith t (ustr '':'')"
    unfolding is_header_def by blast
  then show ?thesis
  proof cases
    case 10
    with up le l have "length (strip t) < 60 \<and> isupper U (replace_cp 32 [] (strip t)) \<and> 3 < length (strip t)"
      by simp
    then show ?thesis unfolding is_header_def by blast
  next
    case 11
    with en le have "length (strip t) < 40 \<and> endswith (strip t) (ustr '':'')" by simp
    then show ?thesis unfolding is_header_def by blast
  qed (unfold is_header_def hl hc ss, blast+)
qed

lemma is_instruction_strip: "is_instruction E (strip t) = is_instruction E t"
  by (simp add: is_instruction_def strip_strip)

text \<open>
  C9 (mutual exclusion of the label predicates). No text is an instruction and a reading. A
  header is neither an instruction nor a reading when the text has no whitespace around it,
  as every text that the run classifies, and also when it has and the text is not a line of
  Roman numerals (\<^verbatim>\<open>^[IVX]+\.\s\<close>), the database being Python's.
\<close>

theorem labels_exclusive:
  "\<not> (is_instruction E t \<and> is_reading E t)
   \<and> (strip t = t \<or> (whitespace_uncased (udb E) \<and> \<not> matches (roman_numeral (udb E)) t)
        \<longrightarrow> \<not> (is_header (udb E) t \<and> is_instruction E t) \<and> \<not> (is_header (udb E) t \<and> is_reading E t))"
proof -
  have a: "\<not> (is_instruction E t \<and> is_reading E t)"
    using is_instruction_strip[of E t] by (auto simp: is_reading_def)
  have b: "\<not> (is_header (udb E) t \<and> is_instruction E t) \<and> \<not> (is_header (udb E) t \<and> is_reading E t)"
    if "strip t = t"
    using that by (auto simp: is_instruction_def is_reading_def)
  have c: "\<not> (is_header (udb E) t \<and> is_instruction E t) \<and> \<not> (is_header (udb E) t \<and> is_reading E t)"
    if u: "whitespace_uncased (udb E)" and r: "\<not> matches (roman_numeral (udb E)) t"
  proof -
    have "is_header (udb E) (strip t)" if "is_header (udb E) t" "3 < length (strip t)"
      using u that r by (intro is_header_strip) auto
    then show ?thesis by (auto simp: is_instruction_def is_reading_def)
  qed
  from a b c show ?thesis by blast
qed

lemma ascii_db_uncased: "whitespace_uncased ascii_db"
  by (auto simp: whitespace_uncased_def lower_cp_def cp_isupper_def ascii_db_def ascii_upper_def isspace_def rng_def)

lemma exam_header: "is_header ascii_db (ustr ''Exam: bring two pencils'')"
  by (simp add: hdr_ev cls_ev text_ev rx_ev)

lemma exam_instr: "get_instruction_score plain_env (ustr ''Exam: bring two pencils'') = 3"
  by (simp add: instr_ev hdr_ev cls_ev text_ev rx_ev)

lemma exam_strip: "strip (ustr ''Exam: bring two pencils'') = ustr ''Exam: bring two pencils''"
  by (simp add: text_ev)

lemma padded_exam_header: "is_header ascii_db (ustr ''  Exam: bring two pencils '')"
  by (simp add: hdr_ev cls_ev text_ev rx_ev)

lemma padded_exam_roman: "\<not> matches (roman_numeral ascii_db) (ustr ''  Exam: bring two pencils '')"
  by (simp add: roman_numeral_def cls_ev text_ev rx_ev)

text \<open>
  The rule at \<^verbatim>\<open>"Exam: bring two pencils"\<close>, a header by its keyword with the instruction
  score 3 that would make it an instruction, and at the same text with whitespace around it.
\<close>

theorem labels_exclusive_witness:
  "is_header (udb plain_env) (ustr ''Exam: bring two pencils'')
   \<and> get_instruction_score plain_env (ustr ''Exam: bring two pencils'') = 3
   \<and> \<not> is_instruction plain_env (ustr ''Exam: bring two pencils'')
   \<and> \<not> is_reading plain_env (ustr ''Exam: bring two pencils'')
   \<and> is_header (udb plain_env) (ustr ''  Exam: bring two pencils '')
   \<and> \<not> is_instruction plain_env (ustr ''  Exam: bring two pencils '')
   \<and> \<not> is_reading plain_env (ustr ''  Exam: bring two pencils '')"
proof -
  have p: "udb plain_env = ascii_db" by (simp add: plain_env_def)
  have h: "is_header (udb plain_env) (ustr ''Exam: bring two pencils'')"
    "is_header (udb plain_env) (ustr ''  Exam: bring two pencils '')"
    using exam_header padded_exam_header by (simp_all add: p)
  have u: "whitespace_uncased (udb plain_env)"
    "\<not> matches (roman_numeral (udb plain_env)) (ustr ''  Exam: bring two pencils '')"
    using ascii_db_uncased padded_exam_roman by (simp_all add: p)
  from labels_exclusive[of plain_env "ustr ''Exam: bring two pencils''"] exam_strip h(1)
  have a: "\<not> is_instruction plain_env (ustr ''Exam: bring two pencils'')"
    "\<not> is_reading plain_env (ustr ''Exam: bring two pencils'')"
    by auto
  from labels_exclusive[of plain_env "ustr ''  Exam: bring two pencils ''"] u h(2)
  have b: "\<not> is_instruction plain_env (ustr ''  Exam: bring two pencils '')"
    "\<not> is_reading plain_env (ustr ''  Exam: bring two pencils '')"
    by auto
  from h a b exam_instr show ?thesis by simp
qed

end
